theory Spec2Isabelle
  imports Main "HOL-Library.AList"
begin

section \<open>Python values and errors\<close>

text \<open>
  The values that travel through the configuration dictionaries of
  \<^verbatim>\<open>qiskit_aqua/_aqua.py\<close>. A Python \<^verbatim>\<open>dict\<close> with string keys is an
  association list in insertion order; \<^verbatim>\<open>PBackend n\<close> is an instance of
  \<^verbatim>\<open>BaseBackend\<close> with identity \<open>n\<close>, \<^verbatim>\<open>PObject n\<close> any other object.
  Floating-point numbers are not modelled.
\<close>

datatype pyval =
    PNone
  | PBool bool
  | PInt int
  | PStr string
  | PList "pyval list"
  | PDict "(string \<times> pyval) list"
  | PBackend nat
  | PObject nat

type_synonym pydict = "(string \<times> pyval) list"
type_synonym sections = "(string \<times> pydict) list"

datatype capability = Gradient | Bounds | InitialPoint

datatype error =
    AquaError string "pyval list"
  | KeyError string
  | ConfigurationError string string
  | DependencyCycleError string
  | DependencyResolutionError string
  | ComponentNotFoundError string string
  | OptimizerCapabilityError capability
  | ImportError
  | ImportWarning string
  | TypeError string
  | OtherError string

section \<open>The ISRES optimizer (nlopts/isres.py)\<close>

datatype SupportLevel = ignored | supported | required

record support_level =
  gradient :: SupportLevel
  bounds :: SupportLevel
  initial_point :: SupportLevel

text \<open>\<^verbatim>\<open>ISRES.CONFIGURATION['support_level']\<close>, lines 52 to 56.\<close>

definition ISRES_support_level :: support_level where
  "ISRES_support_level =
     \<lparr> gradient = ignored, bounds = supported, initial_point = required \<rparr>"

text \<open>
  Modelled from the spec: the base class method \<^verbatim>\<open>Optimizer.optimize\<close>, which
  \<^verbatim>\<open>ISRES.optimize\<close> calls first, is not among the sources. Section 4.4: before
  iterating, the problem is validated against the declared support levels; a
  capability marked required but absent in the problem fails with
  \<^verbatim>\<open>OptimizerCapabilityError\<close>.
\<close>

definition Optimizer_optimize ::
  "support_level \<Rightarrow> nat \<Rightarrow> 'f \<Rightarrow> 'g option \<Rightarrow> 'b option \<Rightarrow> 'p option \<Rightarrow> error + unit" where
  "Optimizer_optimize lv num_vars objective_function gradient_function variable_bounds ip =
     (if gradient lv = required \<and> gradient_function = None
        then Inl (OptimizerCapabilityError Gradient)
      else if bounds lv = required \<and> variable_bounds = None
        then Inl (OptimizerCapabilityError Bounds)
      else if initial_point lv = required \<and> ip = None
        then Inl (OptimizerCapabilityError InitialPoint)
      else Inr ())"

datatype nlopt_algorithm = GN_ISRES

text \<open>
  \<^verbatim>\<open>ISRES.optimize\<close>, lines 76 to 80. The numeric routine \<^verbatim>\<open>minimize\<close> of
  \<^verbatim>\<open>_nloptimizer\<close> is a parameter: given the nlopt algorithm, the objective
  function, the bounds, the initial point and the options, it yields the list of
  points at which it evaluated the objective function, and its result. The
  outcome of \<^verbatim>\<open>optimize\<close> is that list of evaluations with the result or the
  exception raised.
\<close>

definition ISRES_optimize ::
  "(nlopt_algorithm \<Rightarrow> 'f \<Rightarrow> 'b option \<Rightarrow> 'p option \<Rightarrow> pydict \<Rightarrow> 'p list \<times> (error + 'r))
     \<Rightarrow> pydict \<Rightarrow> nat \<Rightarrow> 'f \<Rightarrow> 'g option \<Rightarrow> 'b option \<Rightarrow> 'p option
     \<Rightarrow> 'p list \<times> (error + 'r)" where
  "ISRES_optimize minimize options num_vars objective_function gradient_function
       variable_bounds ip =
     (case Optimizer_optimize ISRES_support_level num_vars objective_function
             gradient_function variable_bounds ip of
        Inl e \<Rightarrow> ([], Inl e)
      | Inr _ \<Rightarrow> minimize GN_ISRES objective_function variable_bounds ip options)"



section \<open>The execution driver (aqua.py)\<close>

text \<open>
  Modelled from the spec: the constants \<^verbatim>\<open>JSONSchema.NAME\<close>,
  \<^verbatim>\<open>JSONSchema.BACKEND\<close>, \<^verbatim>\<open>JSONSchema.PROBLEM\<close> and
  \<^verbatim>\<open>PluggableType.ALGORITHM.value\<close> are declared outside the sources. Section 6
  names the sections "problem", "backend" and "input" and the property "name";
  \<^verbatim>\<open>QAOA.init_params\<close> reads the algorithm section.
\<close>

definition NAME :: string where "NAME = ''name''"
definition BACKEND :: string where "BACKEND = ''backend''"
definition PROBLEM :: string where "PROBLEM = ''problem''"
definition ALGORITHM :: string where "ALGORITHM = ''algorithm''"

text \<open>
  The object that \<^verbatim>\<open>InputParser(params)\<close> is after \<^verbatim>\<open>parse()\<close> and
  \<^verbatim>\<open>validate_merge_defaults()\<close>, as far as \<^verbatim>\<open>run_algorithm\<close> uses it: its
  four accessors. The class is not among the sources, so the accessors are
  fields, and the driver is modelled for whatever they return.
\<close>

record parser =
  get_sections :: sections
  get_section :: "string \<Rightarrow> error + pydict"
  get_section_properties :: "string \<Rightarrow> error + pydict"
  get_section_property :: "string \<Rightarrow> string \<Rightarrow> pyval"

text \<open>
  Everything else the driver calls and does not define: the construction and
  resolution of the parser, \<^verbatim>\<open>json.dumps\<close> of the standard library (its text
  is only logged, so what matters is whether it raises, which it does with
  \<^verbatim>\<open>TypeError\<close> on a value it cannot encode), the names of the local algorithms, the input
  component's \<^verbatim>\<open>from_params\<close>, the algorithm's \<^verbatim>\<open>init_params\<close>,
  \<^verbatim>\<open>setup_quantum_backend\<close> and \<^verbatim>\<open>run\<close>, the two conversions of
  \<^verbatim>\<open>jsonutils\<close>, the input artifact's \<^verbatim>\<open>to_params\<close> and configuration name,
  and the writing of the file. Each call that can raise returns a sum.
\<close>

record ('i, 'a) environment =
  InputParser :: "sections \<Rightarrow> error + parser"
  json_dumps :: "sections \<Rightarrow> error + unit"
  local_pluggables :: "string list"
  from_params :: "pyval \<Rightarrow> pydict \<Rightarrow> error + 'i"
  init_params :: "pyval \<Rightarrow> sections \<Rightarrow> 'i option \<Rightarrow> error + 'a"
  set_random_seed :: "'a \<Rightarrow> pyval \<Rightarrow> 'a"
  setup_quantum_backend :: "'a \<Rightarrow> pydict \<Rightarrow> error + 'a"
  run :: "'a \<Rightarrow> error + pyval"
  convert_json_to_dict :: "pydict \<Rightarrow> pydict"
  convert_dict_to_json :: "pydict \<Rightarrow> pydict"
  to_params :: "'i \<Rightarrow> pydict"
  configuration_name :: "'i \<Rightarrow> pyval"
  json_dump :: "string \<Rightarrow> sections \<Rightarrow> error + unit"

text \<open>The calls the driver makes on its collaborators, in the order it makes them.\<close>

datatype ('i, 'a) event =
    FromParams pyval pydict
  | InitParams pyval sections "'i option"
  | SetupQuantumBackend 'a pydict
  | Run 'a
  | JsonDump string sections

fun is_BaseBackend :: "pyval \<Rightarrow> bool" where
  "is_BaseBackend (PBackend n) = True"
| "is_BaseBackend v = False"

fun name_in :: "pyval \<Rightarrow> string list \<Rightarrow> bool" where
  "name_in (PStr s) names = (s \<in> set names)"
| "name_in v names = False"

text \<open>
  Lines 66 to 76: the backend configuration. The dictionary comprehension keeps
  the items of the section whose key is not \<^verbatim>\<open>'name'\<close>; an assignment to a key
  replaces the value in place or appends the item.
\<close>

definition backend_cfg_of :: "parser \<Rightarrow> pyval \<Rightarrow> error + pydict option" where
  "backend_cfg_of inputparser backend =
     (let backend_name = get_section_property inputparser BACKEND NAME in
      case (if backend_name \<noteq> PNone
            then (case get_section inputparser BACKEND of
                    Inl e \<Rightarrow> Inl e
                  | Inr sec \<Rightarrow>
                      Inr (Some (AList.update ''backend'' backend_name
                                   (filter (\<lambda>(k, v). k \<noteq> ''name'') sec))))
            else Inr None) of
        Inl e \<Rightarrow> Inl e
      | Inr backend_cfg \<Rightarrow>
          if backend \<noteq> PNone \<and> is_BaseBackend backend
          then Inr (Some (AList.update ''backend'' backend
                            (case backend_cfg of None \<Rightarrow> [] | Some c \<Rightarrow> c)))
          else Inr backend_cfg)"

text \<open>Lines 78 to 84: the input artifact, built from the input section when not supplied.\<close>

definition make_algo_input ::
  "('i, 'a) environment \<Rightarrow> parser \<Rightarrow> 'i option \<Rightarrow> ('i, 'a) event list \<times> (error + 'i option)" where
  "make_algo_input env inputparser algo_input =
     (case algo_input of
        Some i \<Rightarrow> ([], Inr (Some i))
      | None \<Rightarrow>
          (let input_name = get_section_property inputparser ''input'' NAME in
           if input_name \<noteq> PNone
           then (case get_section_properties inputparser ''input'' of
                   Inl e \<Rightarrow> ([], Inl e)
                 | Inr props \<Rightarrow>
                     if NAME \<notin> fst ` set props then ([], Inl (KeyError NAME))
                     else
                       (let input_params = convert_json_to_dict env (AList.delete NAME props) in
                        case from_params env input_name input_params of
                          Inl e \<Rightarrow> ([FromParams input_name input_params], Inl e)
                        | Inr i \<Rightarrow> ([FromParams input_name input_params], Inr (Some i))))
           else ([], Inr None)))"

text \<open>Lines 89 to 97: seed, backend set-up, run and conversion of the result.\<close>

definition execute ::
  "('i, 'a) environment \<Rightarrow> parser \<Rightarrow> 'a \<Rightarrow> pydict option \<Rightarrow> bool
     \<Rightarrow> ('i, 'a) event list \<times> (error + pyval)" where
  "execute env inputparser algorithm0 backend_cfg json_output =
     (let algorithm = set_random_seed env algorithm0
                        (get_section_property inputparser PROBLEM ''random_seed'');
          finish = (\<lambda>alg. case run env alg of
                      Inl e \<Rightarrow> ([Run alg], Inl e)
                    | Inr val \<Rightarrow>
                        ([Run alg],
                         Inr (case val of
                                PDict d \<Rightarrow> if json_output then PDict (convert_dict_to_json env d)
                                           else val
                              | _ \<Rightarrow> val)))
      in case backend_cfg of
           None \<Rightarrow> finish algorithm
         | Some cfg \<Rightarrow>
             (case setup_quantum_backend env algorithm cfg of
                Inl e \<Rightarrow> ([SetupQuantumBackend algorithm cfg], Inl e)
              | Inr alg \<Rightarrow>
                  (case finish alg of
                     (evs, r) \<Rightarrow> (SetupQuantumBackend algorithm cfg # evs, r))))"

text \<open>
  \<^verbatim>\<open>run_algorithm\<close>, lines 38 to 97: the calls made, and the value returned or
  the exception. Line 57 evaluates \<^verbatim>\<open>json.dumps\<close> of the resolved sections
  for the log message, whatever the log level, before anything is constructed.
\<close>

definition run_algorithm ::
  "('i, 'a) environment \<Rightarrow> sections \<Rightarrow> 'i option \<Rightarrow> bool \<Rightarrow> pyval
     \<Rightarrow> ('i, 'a) event list \<times> (error + pyval)" where
  "run_algorithm env params algo_input json_output backend =
     (case InputParser env params of
        Inl e \<Rightarrow> ([], Inl e)
      | Inr inputparser \<Rightarrow>
          (case json_dumps env (get_sections inputparser) of
             Inl e \<Rightarrow> ([], Inl e)
           | Inr _ \<Rightarrow>
               (let algo_name = get_section_property inputparser ALGORITHM NAME in
                if algo_name = PNone then ([], Inl (AquaError ''Missing algorithm name'' []))
                else if \<not> name_in algo_name (local_pluggables env)
                then ([], Inl (AquaError ''Algorithm {0} missing in local algorithms'' [algo_name]))
                else
                  (case backend_cfg_of inputparser backend of
                     Inl e \<Rightarrow> ([], Inl e)
                   | Inr backend_cfg \<Rightarrow>
                       (case make_algo_input env inputparser algo_input of
                          (evs, Inl e) \<Rightarrow> (evs, Inl e)
                        | (evs, Inr algo_input') \<Rightarrow>
                            (let algo_params = get_sections inputparser in
                             case init_params env algo_name algo_params algo_input' of
                               Inl e \<Rightarrow>
                                 (evs @ [InitParams algo_name algo_params algo_input'], Inl e)
                             | Inr algorithm \<Rightarrow>
                                 (case execute env inputparser algorithm backend_cfg
                                         json_output of
                                    (evs', r) \<Rightarrow>
                                      (evs @ InitParams algo_name algo_params algo_input' # evs',
                                       r))))))))"

text \<open>
  \<^verbatim>\<open>run_algorithm_to_json\<close>, lines 100 to 134. The file written is recorded with
  the dictionary handed to \<^verbatim>\<open>json.dump\<close>.
\<close>

definition run_algorithm_to_json ::
  "('i, 'a) environment \<Rightarrow> sections \<Rightarrow> 'i option \<Rightarrow> string
     \<Rightarrow> ('i, 'a) event list \<times> (error + pydict)" where
  "run_algorithm_to_json env params algo_input jsonfile =
     (case InputParser env params of
        Inl e \<Rightarrow> ([], Inl e)
      | Inr inputparser \<Rightarrow>
          (let algo_params0 = get_sections inputparser;
               algo_params =
                 (case algo_input of
                    None \<Rightarrow> algo_params0
                  | Some i \<Rightarrow>
                      (let input_params = convert_dict_to_json env (to_params env i) in
                       AList.update ''input''
                         (AList.update ''name'' (configuration_name env i) input_params)
                         algo_params0))
           in case json_dump env jsonfile algo_params of
                Inl e \<Rightarrow> ([JsonDump jsonfile algo_params], Inl e)
              | Inr _ \<Rightarrow> ([JsonDump jsonfile algo_params], Inr [(''jsonfile'', PStr jsonfile)])))"

section \<open>Component descriptors and the QAOA configuration (qaoa.py)\<close>

datatype jtype = TString | TInteger | TNumber | TBoolean | TArray | TObject | TNull

text \<open>
  One property of an input schema, with the keywords the sources use:
  \<^verbatim>\<open>type\<close> (one type or a list of them), \<^verbatim>\<open>default\<close>, \<^verbatim>\<open>minimum\<close>, the
  \<^verbatim>\<open>enum\<close> of a \<^verbatim>\<open>oneOf\<close>, and the \<^verbatim>\<open>type\<close> of an array's \<^verbatim>\<open>items\<close>.
\<close>

record property_schema =
  ptype :: "jtype list"
  pdefault :: "pyval option"
  pminimum :: "int option"
  penum :: "pyval list option"
  pitems :: "jtype option"

text \<open>
  A \<^verbatim>\<open>CONFIGURATION\<close> dictionary: name, the properties of the input schema and
  its \<^verbatim>\<open>additionalProperties\<close> flag, the problems, the roles depended on and
  the default section for each. \<open>d_available\<close> is the current value of the
  component's availability predicate (section 3 of the spec).
\<close>

record descriptor =
  d_name :: string
  d_properties :: "(string \<times> property_schema) list"
  d_additional :: bool
  d_problems :: "string list"
  d_depends :: "string list"
  d_defaults :: sections
  d_available :: bool

text \<open>\<^verbatim>\<open>QAOA.CONFIGURATION\<close>, lines 35 to 76 of qaoa.py.\<close>

definition QAOA_CONFIGURATION :: descriptor where
  "QAOA_CONFIGURATION =
     \<lparr> d_name = ''QAOA.Variational'',
       d_properties =
         [(''operator_mode'',
             \<lparr> ptype = [TString], pdefault = Some (PStr ''matrix''), pminimum = None,
               penum = Some [PStr ''matrix'', PStr ''paulis'', PStr ''grouped_paulis''],
               pitems = None \<rparr>),
          (''p'',
             \<lparr> ptype = [TInteger], pdefault = Some (PInt 1), pminimum = Some 1,
               penum = None, pitems = None \<rparr>),
          (''initial_point'',
             \<lparr> ptype = [TArray, TNull], pdefault = Some PNone, pminimum = None,
               penum = None, pitems = Some TNumber \<rparr>),
          (''batch_mode'',
             \<lparr> ptype = [TBoolean], pdefault = Some (PBool False), pminimum = None,
               penum = None, pitems = None \<rparr>)],
       d_additional = False,
       d_problems = [''ising''],
       d_depends = [''optimizer''],
       d_defaults = [(''optimizer'', [(''name'', PStr ''COBYLA'')])],
       d_available = True \<rparr>"

section \<open>Configuration resolution\<close>

type_synonym registry = "(string \<times> descriptor list) list"

text \<open>
  Modelled from the spec: the registry of \<^verbatim>\<open>_discover\<close> is not among the
  sources. Section 4.1: \<^verbatim>\<open>lookup(role, name)\<close> fails with
  \<^verbatim>\<open>ComponentNotFoundError\<close> if the component is absent; section 7: also if it
  exists but is currently unavailable.
\<close>

definition registry_lookup :: "registry \<Rightarrow> string \<Rightarrow> string \<Rightarrow> error + descriptor" where
  "registry_lookup reg role nm =
     (case map_of reg role of
        None \<Rightarrow> Inl (ComponentNotFoundError role nm)
      | Some ds \<Rightarrow>
          (case find (\<lambda>d. d_name d = nm) ds of
             None \<Rightarrow> Inl (ComponentNotFoundError role nm)
           | Some d \<Rightarrow> if d_available d then Inr d else Inl (ComponentNotFoundError role nm)))"

text \<open>
  Modelled from the spec: the merge of \<^verbatim>\<open>InputParser\<close>, which is not among the
  sources. Section 4.2, step 2: a property absent in the raw section is set to
  the declared default; nested sub-object defaults merge recursively and do not
  replace a partially user-specified sub-object. The first argument holds the
  defaults, the second what the user supplied.
\<close>

fun merge_val :: "pyval \<Rightarrow> pyval \<Rightarrow> pyval" where
  "merge_val (PDict dd) (PDict ud) =
     PDict (map (\<lambda>(k, uv). (k, case map_of dd k of None \<Rightarrow> uv | Some dv \<Rightarrow> merge_val dv uv)) ud
            @ filter (\<lambda>(k, dv). k \<notin> fst ` set ud) dd)"
| "merge_val d u = u"

definition merge_dict :: "pydict \<Rightarrow> pydict \<Rightarrow> pydict" where
  "merge_dict dd ud =
     map (\<lambda>(k, uv). (k, case map_of dd k of None \<Rightarrow> uv | Some dv \<Rightarrow> merge_val dv uv)) ud
     @ filter (\<lambda>(k, dv). k \<notin> fst ` set ud) dd"

text \<open>
  Modelled from the spec: the selected component of a section is its explicit
  "name" property (section 4.2, step 1; component selection strings, section 6).
\<close>

definition selected_name :: "pydict \<Rightarrow> string option" where
  "selected_name sec = (case map_of sec NAME of Some (PStr n) \<Rightarrow> Some n | _ \<Rightarrow> None)"

definition section_name :: "sections \<Rightarrow> string \<Rightarrow> string option" where
  "section_name cfg r = (case map_of cfg r of None \<Rightarrow> None | Some sec \<Rightarrow> selected_name sec)"

text \<open>
  Modelled from the spec: section 4.2, step 1. The section of a role that a
  component depends on is synthesized from the declared default of the depending
  component: absent, it becomes the default; present, it takes from the default
  what it lacks (scenario A: an empty optimizer section becomes the one named
  by the default). A role with neither section nor default cannot be satisfied.
\<close>

definition ensure_section :: "descriptor \<Rightarrow> string \<Rightarrow> sections \<Rightarrow> error + sections" where
  "ensure_section d r cfg =
     (case map_of (d_defaults d) r of
        Some dflt \<Rightarrow>
          Inr (AList.update r
                 (merge_dict dflt (case map_of cfg r of None \<Rightarrow> [] | Some sec \<Rightarrow> sec)) cfg)
      | None \<Rightarrow>
          (case map_of cfg r of
             None \<Rightarrow> Inl (DependencyResolutionError r)
           | Some sec \<Rightarrow> Inr cfg))"

text \<open>
  Modelled from the spec: section 4.2, step 1, the recursion. A default may
  itself declare further defaults; a role met again on the chain of
  dependencies that led to it is a cycle, rejected with
  \<^verbatim>\<open>DependencyCycleError\<close>. A section without a name is a
  \<^verbatim>\<open>ConfigurationError\<close> (section 7: missing required name).
\<close>

lemma registry_lookup_role:
  "registry_lookup reg r n = Inr d \<Longrightarrow> r \<in> fst ` set reg"
  by (auto simp: registry_lookup_def split: option.splits dest: map_of_SomeD intro: rev_image_eqI)

lemma card_roles_decrease:
  "r \<in> fst ` set reg \<Longrightarrow> r \<notin> set path \<Longrightarrow>
   card (fst ` set reg - set (r # path)) < card (fst ` set reg - set path)"
  by (rule psubset_card_mono) auto

function visit :: "registry \<Rightarrow> string list \<Rightarrow> string \<Rightarrow> sections \<Rightarrow> error + sections"
  and visit_deps ::
    "registry \<Rightarrow> string list \<Rightarrow> descriptor \<Rightarrow> string list \<Rightarrow> sections \<Rightarrow> error + sections" where
  "visit reg path r cfg =
     (if r \<in> set path then Inl (DependencyCycleError r)
      else case section_name cfg r of
             None \<Rightarrow> Inl (ConfigurationError r NAME)
           | Some n \<Rightarrow>
               (case registry_lookup reg r n of
                  Inl e \<Rightarrow> Inl e
                | Inr d \<Rightarrow> visit_deps reg (r # path) d (d_depends d) cfg))"
| "visit_deps reg path d [] cfg = Inr cfg"
| "visit_deps reg path d (r # rs) cfg =
     (case ensure_section d r cfg of
        Inl e \<Rightarrow> Inl e
      | Inr cfg1 \<Rightarrow>
          (case visit reg path r cfg1 of
             Inl e \<Rightarrow> Inl e
           | Inr cfg2 \<Rightarrow> visit_deps reg path d rs cfg2))"
  by pat_completeness auto

termination
proof (relation "inv_image (less_than <*lex*> less_than)
    (\<lambda>x. case x of
       Inl (reg, path, r, cfg) \<Rightarrow> (card (fst ` set reg - set path), 0)
     | Inr (reg, path, d, rs, cfg) \<Rightarrow> (card (fst ` set reg - set path), Suc (length rs)))",
    goal_cases)
  case 1
  show ?case by (intro wf_inv_image wf_lex_prod wf_less_than)
next
  case (2 reg path r cfg n d)
  then show ?case
    using card_roles_decrease [OF registry_lookup_role, of reg r n d path] by simp
next
  case 3
  show ?case by simp
next
  case 4
  show ?case by simp
qed

fun visit_all :: "registry \<Rightarrow> string list \<Rightarrow> sections \<Rightarrow> error + sections" where
  "visit_all reg [] cfg = Inr cfg"
| "visit_all reg (r # rs) cfg =
     (case visit reg [] r cfg of
        Inl e \<Rightarrow> Inl e
      | Inr cfg1 \<Rightarrow> visit_all reg rs cfg1)"

text \<open>
  Modelled from the spec: section 4.2, step 1, for the whole configuration. The
  component sections are those named after a role of the registry; dependency
  resolution starts from each of them that carries an explicit name, in the
  order of the raw configuration.
\<close>

definition start_roles :: "registry \<Rightarrow> sections \<Rightarrow> string list" where
  "start_roles reg cfg =
     filter (\<lambda>s. map_of reg s \<noteq> None \<and> section_name cfg s \<noteq> None) (map fst cfg)"

definition resolve_dependencies :: "registry \<Rightarrow> sections \<Rightarrow> error + sections" where
  "resolve_dependencies reg raw = visit_all reg (start_roles reg raw) raw"

text \<open>
  Modelled from the spec: section 4.2, step 2. Once the component name of a
  section is known, its descriptor's schema is fetched and the declared
  defaults are merged in. Sections that are not named after a role (problem,
  backend) are carried over as they are.
\<close>

definition schema_defaults :: "descriptor \<Rightarrow> pydict" where
  "schema_defaults d =
     concat (map (\<lambda>(k, ps). case pdefault ps of None \<Rightarrow> [] | Some v \<Rightarrow> [(k, v)])
               (d_properties d))"

definition section_descriptor :: "registry \<Rightarrow> string \<Rightarrow> pydict \<Rightarrow> error + descriptor" where
  "section_descriptor reg s sec =
     (case selected_name sec of
        None \<Rightarrow> Inl (ConfigurationError s NAME)
      | Some n \<Rightarrow> registry_lookup reg s n)"

definition merge_section :: "registry \<Rightarrow> string \<Rightarrow> pydict \<Rightarrow> error + pydict" where
  "merge_section reg s sec =
     (if map_of reg s = None then Inr sec
      else case section_descriptor reg s sec of
             Inl e \<Rightarrow> Inl e
           | Inr d \<Rightarrow> Inr (merge_dict (schema_defaults d) sec))"

fun merge_defaults :: "registry \<Rightarrow> sections \<Rightarrow> error + sections" where
  "merge_defaults reg [] = Inr []"
| "merge_defaults reg ((s, sec) # rest) =
     (case merge_section reg s sec of
        Inl e \<Rightarrow> Inl e
      | Inr sec1 \<Rightarrow>
          (case merge_defaults reg rest of
             Inl e \<Rightarrow> Inl e
           | Inr rest1 \<Rightarrow> Inr ((s, sec1) # rest1)))"

text \<open>
  Modelled from the spec: section 4.2, step 3. A value conforms to a property
  schema when it has one of the declared types (a null value for a nullable
  property), respects the minimum if it is a number, belongs to the enumeration
  if there is one, and, for an array, has items of the declared type.
\<close>

fun has_type :: "jtype \<Rightarrow> pyval \<Rightarrow> bool" where
  "has_type TString (PStr s) = True"
| "has_type TInteger (PInt i) = True"
| "has_type TNumber (PInt i) = True"
| "has_type TBoolean (PBool b) = True"
| "has_type TArray (PList xs) = True"
| "has_type TObject (PDict d) = True"
| "has_type TNull PNone = True"
| "has_type t v = False"

definition conforms :: "property_schema \<Rightarrow> pyval \<Rightarrow> bool" where
  "conforms ps v =
     (list_ex (\<lambda>t. has_type t v) (ptype ps)
      \<and> (case (pminimum ps, v) of (Some m, PInt i) \<Rightarrow> m \<le> i | _ \<Rightarrow> True)
      \<and> (case penum ps of None \<Rightarrow> True | Some vs \<Rightarrow> List.member vs v)
      \<and> (case (pitems ps, v) of (Some t, PList xs) \<Rightarrow> list_all (has_type t) xs | _ \<Rightarrow> True))"

text \<open>
  Modelled from the spec: section 4.2, step 3. Unknown properties are rejected
  when the schema says so, as are type mismatches and values outside the
  declared constraints; the first violation raises \<^verbatim>\<open>ConfigurationError\<close>
  naming the section and the property. The name selects the component and is
  not a property of the schema.
\<close>

fun validate_properties :: "string \<Rightarrow> descriptor \<Rightarrow> pydict \<Rightarrow> error option" where
  "validate_properties s d [] = None"
| "validate_properties s d ((k, v) # rest) =
     (if k = NAME then validate_properties s d rest
      else case map_of (d_properties d) k of
             None \<Rightarrow>
               if d_additional d then validate_properties s d rest
               else Some (ConfigurationError s k)
           | Some ps \<Rightarrow>
               if conforms ps v then validate_properties s d rest
               else Some (ConfigurationError s k))"

definition validate_section :: "registry \<Rightarrow> string \<Rightarrow> pydict \<Rightarrow> error option" where
  "validate_section reg s sec =
     (if map_of reg s = None then None
      else case section_descriptor reg s sec of
             Inl e \<Rightarrow> Some e
           | Inr d \<Rightarrow> validate_properties s d sec)"

fun validate :: "registry \<Rightarrow> sections \<Rightarrow> error option" where
  "validate reg [] = None"
| "validate reg ((s, sec) # rest) =
     (case validate_section reg s sec of
        Some e \<Rightarrow> Some e
      | None \<Rightarrow> validate reg rest)"

text \<open>
  Modelled from the spec: section 4.2, the three steps in order; the resolved
  configuration is what \<^verbatim>\<open>parse\<close> followed by \<^verbatim>\<open>validate_merge_defaults\<close>
  leaves in the parser.
\<close>

definition resolve :: "registry \<Rightarrow> sections \<Rightarrow> error + sections" where
  "resolve reg raw =
     (case resolve_dependencies reg raw of
        Inl e \<Rightarrow> Inl e
      | Inr cfg1 \<Rightarrow>
          (case merge_defaults reg cfg1 of
             Inl e \<Rightarrow> Inl e
           | Inr cfg2 \<Rightarrow>
               (case validate reg cfg2 of
                  Some e \<Rightarrow> Inl e
                | None \<Rightarrow> Inr cfg2)))"

text \<open>
  Modelled from the spec: the accessors of the resolved parser read the
  resolved configuration, a mapping from section name to property mapping
  (section 3); a missing property reads as \<^verbatim>\<open>None\<close>, which is what
  \<^verbatim>\<open>run_algorithm\<close> tests for.
\<close>

definition parser_of :: "sections \<Rightarrow> parser" where
  "parser_of cfg =
     \<lparr> get_sections = cfg,
       get_section = (\<lambda>s. case map_of cfg s of
                             None \<Rightarrow> Inl (AquaError ''No section {0}'' [PStr s])
                           | Some sec \<Rightarrow> Inr sec),
       get_section_properties = (\<lambda>s. case map_of cfg s of
                             None \<Rightarrow> Inl (AquaError ''No section {0}'' [PStr s])
                           | Some sec \<Rightarrow> Inr sec),
       get_section_property = (\<lambda>s p. case map_of cfg s of
                             None \<Rightarrow> PNone
                           | Some sec \<Rightarrow> (case map_of sec p of None \<Rightarrow> PNone | Some v \<Rightarrow> v)) \<rparr>"

definition resolved_parser :: "registry \<Rightarrow> sections \<Rightarrow> error + parser" where
  "resolved_parser reg params =
     (case resolve reg params of Inl e \<Rightarrow> Inl e | Inr cfg \<Rightarrow> Inr (parser_of cfg))"

section \<open>Well-formed registries and the order of configurations\<close>

text \<open>
  A Python dict has each key once. A value is well formed when every dict in
  it, at any depth, is represented by a list whose keys are distinct.
\<close>

fun is_dict :: "pyval \<Rightarrow> bool" where
  "is_dict (PDict d) = True"
| "is_dict v = False"

fun wf_val :: "pyval \<Rightarrow> bool" where
  "wf_val (PDict d) = (distinct (map fst d) \<and> (\<forall>p \<in> set d. wf_val (snd p)))"
| "wf_val v = True"

text \<open>
  A descriptor is well formed when the defaults it declares for the roles it
  depends on, and the defaults of its schema, are well-formed dicts; a registry
  is well formed when all its descriptors are.
\<close>

definition wf_descriptor :: "descriptor \<Rightarrow> bool" where
  "wf_descriptor d \<longleftrightarrow>
     list_all (\<lambda>(r, dflt). wf_val (PDict dflt)) (d_defaults d)
     \<and> wf_val (PDict (schema_defaults d))"

definition wf_registry :: "registry \<Rightarrow> bool" where
  "wf_registry reg = list_all (\<lambda>(role, ds). list_all wf_descriptor ds) reg"

text \<open>
  Resolution only ever extends a configuration. A section \<open>s'\<close> extends \<open>s\<close> when
  it keeps every property of \<open>s\<close> whose value is not a dict, and when every dict
  of defaults that merging into \<open>s\<close> leaves unchanged is also left unchanged by
  merging into \<open>s'\<close>. A configuration extends another when it has every section
  of it, extended.
\<close>

definition sec_le :: "pydict \<Rightarrow> pydict \<Rightarrow> bool" where
  "sec_le s s' \<longleftrightarrow>
     (\<forall>k v. map_of s k = Some v \<longrightarrow> \<not> is_dict v \<longrightarrow> map_of s' k = Some v)
     \<and> (\<forall>d. merge_dict d s = s \<longrightarrow> merge_dict d s' = s')"

definition cfg_le :: "sections \<Rightarrow> sections \<Rightarrow> bool" where
  "cfg_le c c' \<longleftrightarrow> (\<forall>r s. map_of c r = Some s \<longrightarrow> (\<exists>s'. map_of c' r = Some s' \<and> sec_le s s'))"

text \<open>
  The section of role \<open>r\<close>, on which the component \<open>d\<close> depends, is settled in
  \<open>cfg\<close>: it is there and already holds the default that \<open>d\<close> declares for it.
\<close>

definition dep_ok :: "descriptor \<Rightarrow> string \<Rightarrow> sections \<Rightarrow> bool" where
  "dep_ok d r c =
     (case map_of (d_defaults d) r of
        Some dflt \<Rightarrow> (case map_of c r of None \<Rightarrow> False | Some s \<Rightarrow> merge_dict dflt s = s)
      | None \<Rightarrow> map_of c r \<noteq> None)"

text \<open>
  The dependencies of the section of role \<open>r\<close> are resolved in \<open>cfg\<close>: the section
  names a registered component, and every role this one depends on is settled
  and resolved in turn, with no role met twice on a chain of dependencies.
\<close>

inductive closed :: "registry \<Rightarrow> sections \<Rightarrow> string list \<Rightarrow> string \<Rightarrow> bool"
  for reg :: registry and cfg :: sections where
  closedI: "r \<notin> set path \<Longrightarrow> section_name cfg r = Some n \<Longrightarrow> registry_lookup reg r n = Inr d \<Longrightarrow>
     (\<forall>r' \<in> set (d_depends d). dep_ok d r' cfg \<and> closed reg cfg (r # path) r') \<Longrightarrow>
     closed reg cfg path r"

section \<open>An example registry and environment\<close>

text \<open>
  Concrete inputs for the examples below. The registry holds QAOA as the sources
  declare it and an optimizer named COBYLA; the configuration of COBYLA is not
  among the sources, the example gives it three properties with defaults. The
  environment resolves with that registry, encodes with \<^verbatim>\<open>json.dumps\<close> what
  is made of none, booleans, integers, strings, lists and dicts, and raises
  \<^verbatim>\<open>TypeError\<close> on any other object, constructs an algorithm only when
  an input artifact is present (as \<^verbatim>\<open>QAOA.init_params\<close> does, lines 102 and 103),
  and lets the algorithm record the backend configuration it is set up with.
\<close>

definition example_COBYLA :: descriptor where
  "example_COBYLA =
     \<lparr> d_name = ''COBYLA'',
       d_properties =
         [(''maxiter'',
             \<lparr> ptype = [TInteger], pdefault = Some (PInt 1000), pminimum = None,
               penum = None, pitems = None \<rparr>),
          (''disp'',
             \<lparr> ptype = [TBoolean], pdefault = Some (PBool False), pminimum = None,
               penum = None, pitems = None \<rparr>),
          (''tol'',
             \<lparr> ptype = [TNumber, TNull], pdefault = Some PNone, pminimum = None,
               penum = None, pitems = None \<rparr>)],
       d_additional = False,
       d_problems = [],
       d_depends = [],
       d_defaults = [],
       d_available = True \<rparr>"

definition example_registry :: registry where
  "example_registry = [(''algorithm'', [QAOA_CONFIGURATION]), (''optimizer'', [example_COBYLA])]"

fun json_serializable :: "pyval \<Rightarrow> bool" where
  "json_serializable (PList xs) = list_all json_serializable xs"
| "json_serializable (PDict d) = list_all (\<lambda>p. json_serializable (snd p)) d"
| "json_serializable (PBackend n) = False"
| "json_serializable (PObject n) = False"
| "json_serializable v = True"

definition example_env :: "(pydict, pydict) environment" where
  "example_env =
     \<lparr> InputParser = resolved_parser example_registry,
       json_dumps = (\<lambda>secs. if list_all (\<lambda>(s, sec). json_serializable (PDict sec)) secs
                             then Inr ()
                             else Inl (TypeError ''Object is not JSON serializable'')),
       local_pluggables = [''QAOA.Variational''],
       from_params = (\<lambda>n ps. Inr ps),
       init_params = (\<lambda>n secs ai. case ai of
                        None \<Rightarrow> Inl (AquaError ''EnergyInput instance is required.'' [])
                      | Some i \<Rightarrow> Inr []),
       set_random_seed = (\<lambda>a v. AList.update ''random_seed'' v a),
       setup_quantum_backend = (\<lambda>a cfg. Inr (AList.update ''backend_cfg'' (PDict cfg) a)),
       run = (\<lambda>a. Inr (PDict a)),
       convert_json_to_dict = (\<lambda>d. d),
       convert_dict_to_json = (\<lambda>d. d),
       to_params = (\<lambda>i. i),
       configuration_name = (\<lambda>i. PStr ''EnergyInput''),
       json_dump = (\<lambda>f secs. Inr ()) \<rparr>"

definition example_params :: sections where
  "example_params =
     [(''algorithm'', [(''name'', PStr ''QAOA.Variational'')]),
      (''backend'', [(''name'', PStr ''qasm_simulator''), (''backend'', PStr ''other''),
                     (''shots'', PInt 100)])]"

definition example_params_no_backend :: sections where
  "example_params_no_backend = [(''algorithm'', [(''name'', PStr ''QAOA.Variational'')])]"

definition example_resolved_no_backend :: sections where
  "example_resolved_no_backend =
     [(''algorithm'',
        [(''name'', PStr ''QAOA.Variational''), (''operator_mode'', PStr ''matrix''),
         (''p'', PInt 1), (''initial_point'', PNone), (''batch_mode'', PBool False)]),
      (''optimizer'',
        [(''name'', PStr ''COBYLA''), (''maxiter'', PInt 1000), (''disp'', PBool False),
         (''tol'', PNone)])]"

definition example_resolved :: sections where
  "example_resolved =
     [(''algorithm'',
        [(''name'', PStr ''QAOA.Variational''), (''operator_mode'', PStr ''matrix''),
         (''p'', PInt 1), (''initial_point'', PNone), (''batch_mode'', PBool False)]),
      (''backend'',
        [(''name'', PStr ''qasm_simulator''), (''backend'', PStr ''other''),
         (''shots'', PInt 100)]),
      (''optimizer'',
        [(''name'', PStr ''COBYLA''), (''maxiter'', PInt 1000), (''disp'', PBool False),
         (''tol'', PNone)])]"

text \<open>
  Scenario B: the algorithm section selects QAOA and sets "p" to 0, below the
  declared minimum; the same with an optimizer section that names a component
  the example registry does not have; and the same with a value of
  "operator_mode" outside its enumeration, before "p" and after it.
\<close>

definition example_p_zero :: sections where
  "example_p_zero = [(''algorithm'', [(''name'', PStr ''QAOA.Variational''), (''p'', PInt 0)])]"

definition example_p_zero_unregistered :: sections where
  "example_p_zero_unregistered =
     [(''algorithm'', [(''name'', PStr ''QAOA.Variational''), (''p'', PInt 0)]),
      (''optimizer'', [(''name'', PStr ''NoSuchOptimizer'')])]"

definition example_p_zero_mode :: sections where
  "example_p_zero_mode =
     [(''algorithm'',
        [(''name'', PStr ''QAOA.Variational''), (''operator_mode'', PStr ''bogus''),
         (''p'', PInt 0)])]"

definition example_p_zero_later :: sections where
  "example_p_zero_later =
     [(''algorithm'',
        [(''name'', PStr ''QAOA.Variational''), (''p'', PInt 0),
         (''operator_mode'', PStr ''bogus'')])]"

section \<open>Properties of the ISRES optimizer\<close>

text \<open>
  C5. Capability enforcement: whatever the other arguments are, calling
  \<^verbatim>\<open>optimize\<close> on ISRES without an initial point fails with
  \<^verbatim>\<open>OptimizerCapabilityError\<close> for the initial point, and the objective
  function has been evaluated at no point.
\<close>

theorem ISRES_optimize_no_initial_point:
  "ISRES_optimize minimize options num_vars objective_function gradient_function
     variable_bounds None = ([], Inl (OptimizerCapabilityError InitialPoint))"
  by (simp add: ISRES_optimize_def Optimizer_optimize_def ISRES_support_level_def)

text \<open>
  C6. Ignored-capability isolation: the outcome of \<^verbatim>\<open>ISRES.optimize\<close> is the same
  whatever gradient function is supplied, and when an initial point is given it
  is the outcome of the nlopt routine called with the objective function, the
  variable bounds, the initial point and the configured options only.
\<close>

theorem ISRES_optimize_gradient_not_passed:
  "ISRES_optimize minimize options num_vars objective_function gradient_function
     variable_bounds ip
   = ISRES_optimize minimize options num_vars objective_function None variable_bounds ip
   \<and> ISRES_optimize minimize options num_vars objective_function gradient_function
       variable_bounds (Some x0)
     = minimize GN_ISRES objective_function variable_bounds (Some x0) options"
  by (simp add: ISRES_optimize_def Optimizer_optimize_def ISRES_support_level_def)


section \<open>Properties of the execution driver\<close>

lemma map_of_filter_key:
  "map_of (filter (\<lambda>(k, v). k \<noteq> n) sec) k' = (if k' = n then None else map_of sec k')"
  by (induction sec) auto

lemma execute_Some:
  "\<exists>rest. fst (execute env p alg (Some cfg) jo)
            = SetupQuantumBackend
                (set_random_seed env alg (get_section_property p PROBLEM ''random_seed'')) cfg # rest
          \<and> (rest = [] \<or> (\<exists>alg'. rest = [Run alg']))"
  by (auto simp: execute_def Let_def split: sum.splits prod.splits)

lemma run_algorithm_reaches_execute:
  assumes "InputParser env params = Inr inputparser"
      and "json_dumps env (get_sections inputparser) = Inr ()"
      and "get_section_property inputparser ALGORITHM NAME = algo_name"
      and "algo_name \<noteq> PNone" and "name_in algo_name (local_pluggables env)"
      and "backend_cfg_of inputparser backend = Inr backend_cfg"
      and "make_algo_input env inputparser algo_input = (evs, Inr ai)"
      and "init_params env algo_name (get_sections inputparser) ai = Inr algorithm"
  shows "fst (run_algorithm env params algo_input json_output backend)
           = evs @ InitParams algo_name (get_sections inputparser) ai
               # fst (execute env inputparser algorithm backend_cfg json_output)"
  using assms by (simp add: run_algorithm_def Let_def split: prod.splits)

lemma backend_cfg_of_name:
  assumes "get_section_property p BACKEND NAME = n" "n \<noteq> PNone"
      and "get_section p BACKEND = Inr sec"
  shows "backend_cfg_of p backend =
           Inr (Some (if is_BaseBackend backend
                      then AList.update ''backend'' backend
                             (AList.update ''backend'' n (filter (\<lambda>(k, v). k \<noteq> ''name'') sec))
                      else AList.update ''backend'' n (filter (\<lambda>(k, v). k \<noteq> ''name'') sec)))"
  using assms by (auto simp: backend_cfg_of_def Let_def)

lemma backend_cfg_of_no_name:
  assumes "get_section_property p BACKEND NAME = PNone"
  shows "backend_cfg_of p backend =
           Inr (if is_BaseBackend backend then Some [(''backend'', backend)] else None)"
  using assms by (auto simp: backend_cfg_of_def Let_def)

lemma example_resolve: "resolve example_registry example_params = Inr example_resolved"
  by code_simp

lemma example_resolve_no_backend:
  "resolve example_registry example_params_no_backend = Inr example_resolved_no_backend"
  by code_simp

lemma example_InputParser:
  "InputParser example_env example_params = Inr (parser_of example_resolved)"
  by (simp add: example_env_def resolved_parser_def example_resolve)

lemma example_InputParser_no_backend:
  "InputParser example_env example_params_no_backend = Inr (parser_of example_resolved_no_backend)"
  by (simp add: example_env_def resolved_parser_def example_resolve_no_backend)

lemma example_facts:
  "json_dumps example_env (get_sections (parser_of example_resolved)) = Inr ()"
  "get_section_property (parser_of example_resolved) ALGORITHM NAME = PStr ''QAOA.Variational''"
  "name_in (PStr ''QAOA.Variational'') (local_pluggables example_env)"
  "get_section_property (parser_of example_resolved) BACKEND NAME = PStr ''qasm_simulator''"
  "get_section (parser_of example_resolved) BACKEND
     = Inr [(''name'', PStr ''qasm_simulator''), (''backend'', PStr ''other''),
            (''shots'', PInt 100)]"
  "make_algo_input example_env (parser_of example_resolved) (Some []) = ([], Inr (Some []))"
  "init_params example_env (PStr ''QAOA.Variational'')
     (get_sections (parser_of example_resolved)) (Some []) = Inr []"
  by (simp_all add: example_env_def parser_of_def example_resolved_def make_algo_input_def
        ALGORITHM_def NAME_def BACKEND_def)

lemma example_execute:
  "fst (execute example_env (parser_of example_resolved) [] (Some cfg) False)
     = [SetupQuantumBackend [(''random_seed'', PNone)] cfg,
        Run [(''random_seed'', PNone), (''backend_cfg'', PDict cfg)]]"
  by (simp add: execute_def example_env_def parser_of_def example_resolved_def Let_def
        PROBLEM_def)

lemma example_run_name:
  "fst (run_algorithm example_env example_params (Some []) False PNone)
     = [InitParams (PStr ''QAOA.Variational'') example_resolved (Some []),
        SetupQuantumBackend [(''random_seed'', PNone)]
          [(''backend'', PStr ''qasm_simulator''), (''shots'', PInt 100)],
        Run [(''random_seed'', PNone),
             (''backend_cfg'',
                PDict [(''backend'', PStr ''qasm_simulator''), (''shots'', PInt 100)])]]"
proof -
  have b: "backend_cfg_of (parser_of example_resolved) PNone
             = Inr (Some [(''backend'', PStr ''qasm_simulator''), (''shots'', PInt 100)])"
    using backend_cfg_of_name [OF example_facts(4) _ example_facts(5), of PNone] by simp
  have g: "get_sections (parser_of example_resolved) = example_resolved"
    by (simp add: parser_of_def)
  from run_algorithm_reaches_execute [OF example_InputParser example_facts(1,2) _
      example_facts(3) b example_facts(6,7), of False]
  show ?thesis by (simp add: example_execute g)
qed

lemma example_run_object:
  "fst (run_algorithm example_env example_params (Some []) False (PBackend 7))
     = [InitParams (PStr ''QAOA.Variational'') example_resolved (Some []),
        SetupQuantumBackend [(''random_seed'', PNone)]
          [(''backend'', PBackend 7), (''shots'', PInt 100)],
        Run [(''random_seed'', PNone),
             (''backend_cfg'', PDict [(''backend'', PBackend 7), (''shots'', PInt 100)])]]"
proof -
  have b: "backend_cfg_of (parser_of example_resolved) (PBackend 7)
             = Inr (Some [(''backend'', PBackend 7), (''shots'', PInt 100)])"
    using backend_cfg_of_name [OF example_facts(4) _ example_facts(5), of "PBackend 7"] by simp
  have g: "get_sections (parser_of example_resolved) = example_resolved"
    by (simp add: parser_of_def)
  from run_algorithm_reaches_execute [OF example_InputParser example_facts(1,2) _
      example_facts(3) b example_facts(6,7), of False]
  show ?thesis by (simp add: example_execute g)
qed

lemma example_facts_no_backend:
  "json_dumps example_env (get_sections (parser_of example_resolved_no_backend)) = Inr ()"
  "get_section_property (parser_of example_resolved_no_backend) ALGORITHM NAME
     = PStr ''QAOA.Variational''"
  "get_section_property (parser_of example_resolved_no_backend) BACKEND NAME = PNone"
  "make_algo_input example_env (parser_of example_resolved_no_backend) (Some [])
     = ([], Inr (Some []))"
  "init_params example_env (PStr ''QAOA.Variational'')
     (get_sections (parser_of example_resolved_no_backend)) (Some []) = Inr []"
  by (simp_all add: example_env_def parser_of_def example_resolved_no_backend_def
        make_algo_input_def ALGORITHM_def NAME_def BACKEND_def)

text \<open>
  C7. Backend configuration forwarding. What holds: when the resolved backend
  section selects a name and the run gets as far as the constructed algorithm
  (resolution, the encoding of line 57, the algorithm name, the input artifact
  and \<^verbatim>\<open>init_params\<close> all succeed), \<^verbatim>\<open>run_algorithm\<close> calls
  \<^verbatim>\<open>setup_quantum_backend\<close> on the constructed algorithm, right after constructing
  it and once. The configuration it passes has no key "name"; under every key
  other than "name" and "backend" it has what the section has; and under
  "backend" it has the selected name, unless the backend argument is a
  \<^verbatim>\<open>BaseBackend\<close> instance, which then takes that place.
\<close>

theorem backend_cfg_forwarded:
  assumes "InputParser env params = Inr inputparser"
      and "json_dumps env (get_sections inputparser) = Inr ()"
      and "get_section_property inputparser ALGORITHM NAME = algo_name"
      and "algo_name \<noteq> PNone" and "name_in algo_name (local_pluggables env)"
      and "get_section_property inputparser BACKEND NAME = n" and "n \<noteq> PNone"
      and "get_section inputparser BACKEND = Inr sec"
      and "make_algo_input env inputparser algo_input = (evs, Inr ai)"
      and "init_params env algo_name (get_sections inputparser) ai = Inr algorithm"
  shows "\<exists>cfg rest.
           fst (run_algorithm env params algo_input json_output backend)
             = evs @ InitParams algo_name (get_sections inputparser) ai
                 # SetupQuantumBackend
                     (set_random_seed env algorithm
                        (get_section_property inputparser PROBLEM ''random_seed'')) cfg
                 # rest
         \<and> (rest = [] \<or> (\<exists>alg'. rest = [Run alg']))
         \<and> map_of cfg ''name'' = None
         \<and> map_of cfg ''backend'' = Some (if is_BaseBackend backend then backend else n)
         \<and> (\<forall>k. k \<noteq> ''name'' \<and> k \<noteq> ''backend'' \<longrightarrow> map_of cfg k = map_of sec k)"
proof -
  have "\<exists>cfg. backend_cfg_of inputparser backend = Inr (Some cfg)
         \<and> map_of cfg ''name'' = None
         \<and> map_of cfg ''backend'' = Some (if is_BaseBackend backend then backend else n)
         \<and> (\<forall>k. k \<noteq> ''name'' \<and> k \<noteq> ''backend'' \<longrightarrow> map_of cfg k = map_of sec k)"
  proof (cases "is_BaseBackend backend")
    case True
    with backend_cfg_of_name [OF assms(6-8), of backend] show ?thesis
      by (simp add: update_conv' map_of_filter_key)
  next
    case False
    with backend_cfg_of_name [OF assms(6-8), of backend] show ?thesis
      by (simp add: update_conv' map_of_filter_key)
  qed
  then obtain cfg where b: "backend_cfg_of inputparser backend = Inr (Some cfg)"
    and m: "map_of cfg ''name'' = None
         \<and> map_of cfg ''backend'' = Some (if is_BaseBackend backend then backend else n)
         \<and> (\<forall>k. k \<noteq> ''name'' \<and> k \<noteq> ''backend'' \<longrightarrow> map_of cfg k = map_of sec k)"
    by blast
  from execute_Some [of env inputparser algorithm cfg json_output] obtain rest where
    e: "fst (execute env inputparser algorithm (Some cfg) json_output)
          = SetupQuantumBackend
              (set_random_seed env algorithm
                 (get_section_property inputparser PROBLEM ''random_seed'')) cfg # rest"
    and r: "rest = [] \<or> (\<exists>alg'. rest = [Run alg'])"
    by blast
  have t: "fst (run_algorithm env params algo_input json_output backend)
             = evs @ InitParams algo_name (get_sections inputparser) ai
                 # SetupQuantumBackend
                     (set_random_seed env algorithm
                        (get_section_property inputparser PROBLEM ''random_seed'')) cfg
                 # rest"
    using run_algorithm_reaches_execute [OF assms(1-5) b assms(9,10), of json_output] e by simp
  from t r m show ?thesis
    by - (rule exI [of _ cfg], rule exI [of _ rest], simp)
qed

theorem backend_cfg_forwarded_witness:
  "\<exists>cfg rest.
     fst (run_algorithm example_env example_params (Some []) False PNone)
       = InitParams (PStr ''QAOA.Variational'') example_resolved (Some [])
           # SetupQuantumBackend [(''random_seed'', PNone)] cfg # rest
     \<and> map_of cfg ''name'' = None
     \<and> map_of cfg ''backend'' = Some (PStr ''qasm_simulator'')
     \<and> map_of cfg ''shots'' = Some (PInt 100)"
proof -
  from backend_cfg_forwarded [OF example_InputParser example_facts(1,2) _ example_facts(3,4) _
      example_facts(5,6,7), of False PNone]
  obtain cfg rest where
    "fst (run_algorithm example_env example_params (Some []) False PNone)
       = [] @ InitParams (PStr ''QAOA.Variational'') (get_sections (parser_of example_resolved))
                (Some [])
           # SetupQuantumBackend
               (set_random_seed example_env []
                  (get_section_property (parser_of example_resolved) PROBLEM ''random_seed'')) cfg
           # rest"
    and "map_of cfg ''name'' = None"
    and "map_of cfg ''backend'' = Some (PStr ''qasm_simulator'')"
    and "\<forall>k. k \<noteq> ''name'' \<and> k \<noteq> ''backend''
           \<longrightarrow> map_of cfg k
               = map_of [(''name'', PStr ''qasm_simulator''), (''backend'', PStr ''other''),
                         (''shots'', PInt 100)] k"
    by auto
  then show ?thesis
    by (auto simp: parser_of_def example_env_def example_resolved_def PROBLEM_def)
qed

text \<open>
  The claim as stated fails on a section that itself has a key "backend" (its
  value is replaced by the selected name), and on a call that supplies a
  backend instance (the name is not passed).
\<close>

theorem backend_forwarding_counterexample:
  "map_of example_params ''backend''
     = Some [(''name'', PStr ''qasm_simulator''), (''backend'', PStr ''other''),
             (''shots'', PInt 100)]
   \<and> fst (run_algorithm example_env example_params (Some []) False PNone)
       = [InitParams (PStr ''QAOA.Variational'') example_resolved (Some []),
          SetupQuantumBackend [(''random_seed'', PNone)]
            [(''backend'', PStr ''qasm_simulator''), (''shots'', PInt 100)],
          Run [(''random_seed'', PNone),
               (''backend_cfg'',
                  PDict [(''backend'', PStr ''qasm_simulator''), (''shots'', PInt 100)])]]
   \<and> map_of [(''backend'', PStr ''qasm_simulator''), (''shots'', PInt 100)] ''backend''
       \<noteq> Some (PStr ''other'')
   \<and> fst (run_algorithm example_env example_params (Some []) False (PBackend 7))
       = [InitParams (PStr ''QAOA.Variational'') example_resolved (Some []),
          SetupQuantumBackend [(''random_seed'', PNone)]
            [(''backend'', PBackend 7), (''shots'', PInt 100)],
          Run [(''random_seed'', PNone),
               (''backend_cfg'', PDict [(''backend'', PBackend 7), (''shots'', PInt 100)])]]
   \<and> map_of [(''backend'', PBackend 7), (''shots'', PInt 100)] ''backend''
       \<noteq> Some (PStr ''qasm_simulator'')"
  using example_run_name example_run_object by (simp add: example_params_def)

text \<open>
  C10. Backend-object override: when the backend argument is a \<^verbatim>\<open>BaseBackend\<close>
  instance and the run gets as far as the constructed algorithm,
  \<^verbatim>\<open>run_algorithm\<close> calls \<^verbatim>\<open>setup_quantum_backend\<close> on it, right after
  constructing it and once, whether or not the parameters select a backend
  name. The configuration it passes has that instance under "backend"; if the
  parameters select no backend name the configuration holds the instance only;
  otherwise the other keys of the backend section are forwarded as they are.
\<close>

theorem backend_object_override:
  assumes "InputParser env params = Inr inputparser"
      and "json_dumps env (get_sections inputparser) = Inr ()"
      and "get_section_property inputparser ALGORITHM NAME = algo_name"
      and "algo_name \<noteq> PNone" and "name_in algo_name (local_pluggables env)"
      and "get_section_property inputparser BACKEND NAME = PNone
           \<or> (\<exists>sec. get_section inputparser BACKEND = Inr sec)"
      and "make_algo_input env inputparser algo_input = (evs, Inr ai)"
      and "init_params env algo_name (get_sections inputparser) ai = Inr algorithm"
  shows "\<exists>cfg rest.
           fst (run_algorithm env params algo_input json_output (PBackend b))
             = evs @ InitParams algo_name (get_sections inputparser) ai
                 # SetupQuantumBackend
                     (set_random_seed env algorithm
                        (get_section_property inputparser PROBLEM ''random_seed'')) cfg
                 # rest
         \<and> (rest = [] \<or> (\<exists>alg'. rest = [Run alg']))
         \<and> map_of cfg ''backend'' = Some (PBackend b)
         \<and> (get_section_property inputparser BACKEND NAME = PNone
              \<longrightarrow> cfg = [(''backend'', PBackend b)])
         \<and> (\<forall>sec k. get_section_property inputparser BACKEND NAME \<noteq> PNone
                   \<and> get_section inputparser BACKEND = Inr sec
                   \<and> k \<noteq> ''name'' \<and> k \<noteq> ''backend''
              \<longrightarrow> map_of cfg k = map_of sec k)"
proof -
  have "\<exists>cfg. backend_cfg_of inputparser (PBackend b) = Inr (Some cfg)
         \<and> map_of cfg ''backend'' = Some (PBackend b)
         \<and> (get_section_property inputparser BACKEND NAME = PNone
              \<longrightarrow> cfg = [(''backend'', PBackend b)])
         \<and> (\<forall>sec k. get_section_property inputparser BACKEND NAME \<noteq> PNone
                   \<and> get_section inputparser BACKEND = Inr sec
                   \<and> k \<noteq> ''name'' \<and> k \<noteq> ''backend''
              \<longrightarrow> map_of cfg k = map_of sec k)"
  proof (cases "get_section_property inputparser BACKEND NAME = PNone")
    case True
    from backend_cfg_of_no_name [OF True, of "PBackend b"] True show ?thesis by simp
  next
    case False
    with assms(6) obtain sec where s: "get_section inputparser BACKEND = Inr sec" by blast
    from backend_cfg_of_name [OF refl False s, of "PBackend b"] False s show ?thesis
      by (simp add: update_conv' map_of_filter_key)
  qed
  then obtain cfg where b: "backend_cfg_of inputparser (PBackend b) = Inr (Some cfg)"
    and m: "map_of cfg ''backend'' = Some (PBackend b)
         \<and> (get_section_property inputparser BACKEND NAME = PNone
              \<longrightarrow> cfg = [(''backend'', PBackend b)])
         \<and> (\<forall>sec k. get_section_property inputparser BACKEND NAME \<noteq> PNone
                   \<and> get_section inputparser BACKEND = Inr sec
                   \<and> k \<noteq> ''name'' \<and> k \<noteq> ''backend''
              \<longrightarrow> map_of cfg k = map_of sec k)"
    by blast
  from execute_Some [of env inputparser algorithm cfg json_output] obtain rest where
    e: "fst (execute env inputparser algorithm (Some cfg) json_output)
          = SetupQuantumBackend
              (set_random_seed env algorithm
                 (get_section_property inputparser PROBLEM ''random_seed'')) cfg # rest"
    and r: "rest = [] \<or> (\<exists>alg'. rest = [Run alg'])"
    by blast
  have t: "fst (run_algorithm env params algo_input json_output (PBackend b))
             = evs @ InitParams algo_name (get_sections inputparser) ai
                 # SetupQuantumBackend
                     (set_random_seed env algorithm
                        (get_section_property inputparser PROBLEM ''random_seed'')) cfg
                 # rest"
    using run_algorithm_reaches_execute [OF assms(1-5) b assms(7,8), of json_output] e by simp
  from t r m show ?thesis
    by - (rule exI [of _ cfg], rule exI [of _ rest], simp)
qed

theorem backend_object_override_witness:
  "(\<exists>cfg rest.
      fst (run_algorithm example_env example_params (Some []) False (PBackend 7))
        = InitParams (PStr ''QAOA.Variational'') example_resolved (Some [])
            # SetupQuantumBackend [(''random_seed'', PNone)] cfg # rest
      \<and> map_of cfg ''backend'' = Some (PBackend 7)
      \<and> map_of cfg ''shots'' = Some (PInt 100))
   \<and> (\<exists>rest.
      fst (run_algorithm example_env example_params_no_backend (Some []) False (PBackend 7))
        = InitParams (PStr ''QAOA.Variational'') example_resolved_no_backend (Some [])
            # SetupQuantumBackend [(''random_seed'', PNone)] [(''backend'', PBackend 7)] # rest)"
proof -
  have s: "get_section_property (parser_of example_resolved) BACKEND NAME = PNone
           \<or> (\<exists>sec. get_section (parser_of example_resolved) BACKEND = Inr sec)"
    using example_facts(5) by simp
  from backend_object_override [OF example_InputParser example_facts(1,2) _ example_facts(3) s
      example_facts(6,7), of False 7]
  obtain cfg rest where
    "fst (run_algorithm example_env example_params (Some []) False (PBackend 7))
       = [] @ InitParams (PStr ''QAOA.Variational'') (get_sections (parser_of example_resolved))
                (Some [])
           # SetupQuantumBackend
               (set_random_seed example_env []
                  (get_section_property (parser_of example_resolved) PROBLEM ''random_seed'')) cfg
           # rest"
    and "map_of cfg ''backend'' = Some (PBackend 7)"
    and "\<forall>sec k. get_section_property (parser_of example_resolved) BACKEND NAME \<noteq> PNone
                \<and> get_section (parser_of example_resolved) BACKEND = Inr sec
                \<and> k \<noteq> ''name'' \<and> k \<noteq> ''backend''
           \<longrightarrow> map_of cfg k = map_of sec k"
    by auto
  with example_facts(4,5) have a:
    "\<exists>cfg rest.
      fst (run_algorithm example_env example_params (Some []) False (PBackend 7))
        = InitParams (PStr ''QAOA.Variational'') example_resolved (Some [])
            # SetupQuantumBackend [(''random_seed'', PNone)] cfg # rest
      \<and> map_of cfg ''backend'' = Some (PBackend 7)
      \<and> map_of cfg ''shots'' = Some (PInt 100)"
    by (auto simp: parser_of_def example_env_def example_resolved_def PROBLEM_def)
  have s': "get_section_property (parser_of example_resolved_no_backend) BACKEND NAME = PNone
           \<or> (\<exists>sec. get_section (parser_of example_resolved_no_backend) BACKEND = Inr sec)"
    using example_facts_no_backend(3) by simp
  from backend_object_override [OF example_InputParser_no_backend example_facts_no_backend(1,2) _
      example_facts(3) s' example_facts_no_backend(4,5), of False 7]
    example_facts_no_backend(3)
  have "\<exists>rest.
      fst (run_algorithm example_env example_params_no_backend (Some []) False (PBackend 7))
        = InitParams (PStr ''QAOA.Variational'') example_resolved_no_backend (Some [])
            # SetupQuantumBackend [(''random_seed'', PNone)] [(''backend'', PBackend 7)] # rest"
    by (auto simp: parser_of_def example_env_def example_resolved_no_backend_def PROBLEM_def)
  with a show ?thesis by blast
qed

text \<open>
  C9. Persisted input merge: with an input artifact, when resolution and the
  writing succeed, \<^verbatim>\<open>run_algorithm_to_json\<close> makes one call, the dump of the
  configuration to the file, and returns the mapping with the file name. The
  persisted "input" section has the artifact's component name under "name" and
  otherwise the converted property form of the artifact; the other sections
  are those of the resolved configuration.
\<close>

theorem run_algorithm_to_json_input:
  assumes "InputParser env params = Inr inputparser"
      and "json_dump env jsonfile
             (AList.update ''input''
                (AList.update ''name'' (configuration_name env i)
                   (convert_dict_to_json env (to_params env i)))
                (get_sections inputparser)) = Inr ()"
  shows "\<exists>persisted input_section.
           run_algorithm_to_json env params (Some i) jsonfile
             = ([JsonDump jsonfile persisted], Inr [(''jsonfile'', PStr jsonfile)])
         \<and> map_of persisted ''input'' = Some input_section
         \<and> map_of input_section ''name'' = Some (configuration_name env i)
         \<and> (\<forall>k. k \<noteq> ''name'' \<longrightarrow>
                map_of input_section k = map_of (convert_dict_to_json env (to_params env i)) k)
         \<and> (\<forall>s. s \<noteq> ''input'' \<longrightarrow> map_of persisted s = map_of (get_sections inputparser) s)"
  using assms
  by (simp add: run_algorithm_to_json_def Let_def update_conv')

theorem run_algorithm_to_json_input_witness:
  "\<exists>persisted input_section.
      run_algorithm_to_json example_env example_params (Some [(''qubit_op'', PStr ''x'')])
          ''algorithm.json''
        = ([JsonDump ''algorithm.json'' persisted], Inr [(''jsonfile'', PStr ''algorithm.json'')])
      \<and> map_of persisted ''input'' = Some input_section
      \<and> map_of input_section ''name'' = Some (PStr ''EnergyInput'')
      \<and> map_of input_section ''qubit_op'' = Some (PStr ''x'')"
proof -
  note p = example_InputParser
  have d: "json_dump example_env ''algorithm.json''
             (AList.update ''input''
                (AList.update ''name'' (configuration_name example_env [(''qubit_op'', PStr ''x'')])
                   (convert_dict_to_json example_env
                      (to_params example_env [(''qubit_op'', PStr ''x'')])))
                (get_sections (parser_of example_resolved))) = Inr ()"
    by (simp add: example_env_def)
  from run_algorithm_to_json_input [OF p d]
  show ?thesis by (auto simp: example_env_def)
qed

section \<open>Properties of configuration resolution\<close>

declare visit.simps [simp del] visit_deps.simps(2) [simp del]

lemma merge_val_not_dict: "\<not> is_dict v \<Longrightarrow> merge_val dv v = v"
  by (cases dv; cases v) auto

lemma merge_val_not_dict_default: "\<not> is_dict dv \<Longrightarrow> merge_val dv v = v"
  by (cases dv; cases v) auto

lemma merge_val_dict: "merge_val (PDict dd) (PDict ud) = PDict (merge_dict dd ud)"
  by (simp add: merge_dict_def)

lemma keys_merge_dict: "fst ` set (merge_dict d s) = fst ` set s \<union> fst ` set d"
proof -
  have a: "fst ` set (map (\<lambda>(k, uv). (k, f k uv)) s) = fst ` set s" for f :: "string \<Rightarrow> pyval \<Rightarrow> pyval"
    by (induction s) auto
  have b: "fst ` set (filter (\<lambda>(k, dv). k \<notin> A) d) = fst ` set d - A" for A
    by (induction d) auto
  show ?thesis
    unfolding merge_dict_def set_append image_Un a b by blast
qed

lemma map_of_merge_dict:
  "map_of (merge_dict d s) k =
     (case map_of s k of
        Some v \<Rightarrow> Some (case map_of d k of None \<Rightarrow> v | Some dv \<Rightarrow> merge_val dv v)
      | None \<Rightarrow> map_of d k)"
proof -
  have a: "map_of (map (\<lambda>(k, uv). (k, case map_of d k of None \<Rightarrow> uv | Some dv \<Rightarrow> merge_val dv uv)) s) k
         = map_option (\<lambda>v. case map_of d k of None \<Rightarrow> v | Some dv \<Rightarrow> merge_val dv v) (map_of s k)"
    by (induction s) (auto split: option.splits)
  have b: "map_of (filter (\<lambda>(k, dv). k \<notin> A) d) k
         = (if k \<in> A then None else map_of d k)" for A
    by (induction d) auto
  have c: "k \<in> fst ` set s \<longleftrightarrow> map_of s k \<noteq> None"
    by (simp add: map_of_eq_None_iff)
  show ?thesis
    unfolding merge_dict_def map_of_append map_add_def a b c
    by (cases "map_of s k") auto
qed

lemma absorbed_iff:
  "merge_dict d s = s \<longleftrightarrow>
     fst ` set d \<subseteq> fst ` set s
     \<and> (\<forall>(k, v) \<in> set s. \<forall>dv. map_of d k = Some dv \<longrightarrow> merge_val dv v = v)"
proof -
  let ?f = "\<lambda>(k, uv). (k, case map_of d k of None \<Rightarrow> uv | Some dv \<Rightarrow> merge_val dv uv)"
  let ?flt = "filter (\<lambda>(k, dv). k \<notin> fst ` set s) d"
  have "merge_dict d s = s \<longleftrightarrow> map ?f s @ ?flt = s @ []"
    by (simp add: merge_dict_def)
  also have "\<dots> \<longleftrightarrow> map ?f s = s \<and> ?flt = []"
    by (rule append_eq_append_conv) simp
  also have "map ?f s = s \<longleftrightarrow> (\<forall>x \<in> set s. ?f x = x)"
    using map_eq_conv [of ?f s id] by simp
  also have "(\<forall>x \<in> set s. ?f x = x)
      \<longleftrightarrow> (\<forall>(k, v) \<in> set s. \<forall>dv. map_of d k = Some dv \<longrightarrow> merge_val dv v = v)"
    by (auto split: option.splits)
  also have "?flt = [] \<longleftrightarrow> fst ` set d \<subseteq> fst ` set s"
    by (force simp: filter_empty_conv)
  finally show ?thesis by blast
qed

lemma wf_val_map_of:
  "wf_val (PDict d) \<Longrightarrow> map_of d k = Some v \<Longrightarrow> wf_val v"
  by (auto dest: map_of_SomeD)

lemma merge_val_self: "wf_val v \<Longrightarrow> merge_val v v = v"
proof (induction v)
  case (PDict d)
  have "merge_dict d d = d"
    unfolding absorbed_iff
  proof (intro conjI ballI, simp, clarify)
    fix k v dv assume kv: "(k, v) \<in> set d" and m: "map_of d k = Some dv"
    from PDict.prems kv have "map_of d k = Some v" by simp
    with m have "dv = v" by simp
    moreover from PDict.prems kv have "wf_val v" by auto
    moreover from kv have "v \<in> Basic_BNFs.snds (k, v)" by simp
    ultimately show "merge_val dv v = v" using PDict.IH kv by blast
  qed
  then show ?case by (simp del: merge_val.simps(1) add: merge_val_dict)
qed simp_all

lemma merge_val_idem: "wf_val dv \<Longrightarrow> merge_val dv (merge_val dv v) = merge_val dv v"
proof (induction v arbitrary: dv)
  case (PDict ud)
  show ?case
  proof (cases dv)
    case (PDict dd)
    have "merge_dict dd (merge_dict dd ud) = merge_dict dd ud"
      unfolding absorbed_iff [of dd "merge_dict dd ud"]
    proof (intro conjI ballI, simp add: keys_merge_dict, clarify)
      fix k v dvk
      assume kv: "(k, v) \<in> set (merge_dict dd ud)" and m: "map_of dd k = Some dvk"
      from \<open>wf_val dv\<close> PDict m have wfk: "wf_val dvk" by (auto dest: map_of_SomeD)
      from kv consider (user) u where "(k, u) \<in> set ud" "v = merge_val dvk u"
        | (dflt) "(k, v) \<in> set dd"
        using m by (auto simp: merge_dict_def)
      then show "merge_val dvk v = v"
      proof cases
        case user
        then have "u \<in> Basic_BNFs.snds (k, u)" by simp
        with PDict.IH [OF user(1) _ wfk] user show ?thesis by simp
      next
        case dflt
        with \<open>wf_val dv\<close> PDict have "map_of dd k = Some v" by simp
        with m wfk show ?thesis by (simp add: merge_val_self)
      qed
    qed
    with PDict show ?thesis by (simp del: merge_val.simps(1) add: merge_val_dict)
  qed simp_all
qed simp_all

lemma merge_val_absorbed_stable:
  "merge_val dv v = v \<Longrightarrow> merge_val dv (merge_val ev v) = merge_val ev v"
proof (induction v arbitrary: dv ev)
  case (PDict ud)
  show ?case
  proof (cases dv)
    case dvd: (PDict dd)
    show ?thesis
    proof (cases ev)
      case evd: (PDict ed)
      from PDict.prems dvd have ab: "merge_dict dd ud = ud" by (simp del: merge_val.simps(1) add: merge_val_dict)
      have "merge_dict dd (merge_dict ed ud) = merge_dict ed ud"
        unfolding absorbed_iff [of dd "merge_dict ed ud"]
      proof (intro conjI ballI, goal_cases)
        case 1
        from ab show ?case unfolding absorbed_iff by (auto simp: keys_merge_dict)
      next
        case (2 x)
        obtain k v where x: "x = (k, v)" by (cases x)
        have "merge_val dvk v = v" if m: "map_of dd k = Some dvk" for dvk
        proof -
          from m have kdd: "k \<in> fst ` set dd" by (auto dest: map_of_SomeD intro: rev_image_eqI)
          with ab have kud: "k \<in> fst ` set ud" unfolding absorbed_iff by blast
          from 2 x kud obtain u where u: "(k, u) \<in> set ud"
            and v: "v = (case map_of ed k of None \<Rightarrow> u | Some evk \<Rightarrow> merge_val evk u)"
            by (auto simp: merge_dict_def)
          from ab u m have a: "merge_val dvk u = u" unfolding absorbed_iff by blast
          from u have "u \<in> Basic_BNFs.snds (k, u)" by simp
          from PDict.IH [OF u this a] a v show ?thesis by (auto split: option.splits)
        qed
        with x show ?case by simp
      qed
      with dvd evd show ?thesis by (simp del: merge_val.simps(1) add: merge_val_dict)
    qed (use PDict.prems in simp_all)
  qed simp_all
qed simp_all

lemma merge_dict_idem:
  "wf_val (PDict d) \<Longrightarrow> merge_dict d (merge_dict d s) = merge_dict d s"
  using merge_val_idem [of "PDict d" "PDict s"] by (simp del: merge_val.simps(1) add: merge_val_dict)

lemma merge_dict_absorbed_stable:
  "merge_dict d s = s \<Longrightarrow> merge_dict d (merge_dict e s) = merge_dict e s"
  using merge_val_absorbed_stable [of "PDict d" "PDict s" "PDict e"] by (simp del: merge_val.simps(1) add: merge_val_dict)

lemma sec_le_refl: "sec_le s s"
  by (simp add: sec_le_def)

lemma sec_le_trans: "sec_le a b \<Longrightarrow> sec_le b c \<Longrightarrow> sec_le a c"
  by (simp add: sec_le_def)

lemma sec_le_merge: "sec_le s (merge_dict e s)"
  by (auto simp: sec_le_def map_of_merge_dict merge_val_not_dict merge_dict_absorbed_stable
        split: option.splits)

lemma cfg_le_refl: "cfg_le c c"
  by (auto simp: cfg_le_def sec_le_refl)

lemma cfg_le_trans: "cfg_le a b \<Longrightarrow> cfg_le b c \<Longrightarrow> cfg_le a c"
  unfolding cfg_le_def by (meson sec_le_trans)

lemma selected_name_le: "sec_le s s' \<Longrightarrow> selected_name s = Some n \<Longrightarrow> selected_name s' = Some n"
  by (auto simp: sec_le_def selected_name_def split: option.splits pyval.splits)

lemma section_name_le:
  "cfg_le c c' \<Longrightarrow> section_name c r = Some n \<Longrightarrow> section_name c' r = Some n"
proof -
  assume le: "cfg_le c c'" and n: "section_name c r = Some n"
  from n obtain s where s: "map_of c r = Some s" "selected_name s = Some n"
    by (auto simp: section_name_def split: option.splits)
  with le obtain s' where "map_of c' r = Some s'" "sec_le s s'"
    by (auto simp: cfg_le_def)
  with s selected_name_le show ?thesis
    by (auto simp: section_name_def)
qed

lemma ensure_section_le: "ensure_section d r c = Inr c' \<Longrightarrow> cfg_le c c'"
  by (auto simp: ensure_section_def cfg_le_def update_conv' sec_le_refl sec_le_merge
        split: option.splits)

lemma dep_ok_ensure: "dep_ok d r c \<Longrightarrow> ensure_section d r c = Inr c"
  by (auto simp: dep_ok_def ensure_section_def update_triv split: option.splits)

lemma lookup_wf: "wf_registry reg \<Longrightarrow> registry_lookup reg r n = Inr d \<Longrightarrow> wf_descriptor d"
  by (auto simp: wf_registry_def registry_lookup_def list_all_iff find_Some_iff
        split: option.splits if_splits dest!: map_of_SomeD)

lemma ensure_dep_ok:
  "wf_descriptor d \<Longrightarrow> ensure_section d r c = Inr c' \<Longrightarrow> dep_ok d r c'"
proof (cases "map_of (d_defaults d) r")
  case None
  assume "ensure_section d r c = Inr c'"
  with None show ?thesis
    by (auto simp: dep_ok_def ensure_section_def split: option.splits)
next
  case (Some dflt)
  assume wf: "wf_descriptor d" and e: "ensure_section d r c = Inr c'"
  from Some have "(r, dflt) \<in> set (d_defaults d)" by (rule map_of_SomeD)
  with wf have "wf_val (PDict dflt)" by (auto simp: wf_descriptor_def list_all_iff)
  from merge_dict_idem [OF this] e Some show ?thesis
    by (auto simp: dep_ok_def ensure_section_def update_conv')
qed

lemma dep_ok_le: "dep_ok d r c \<Longrightarrow> cfg_le c c' \<Longrightarrow> dep_ok d r c'"
  by (fastforce simp: dep_ok_def cfg_le_def sec_le_def split: option.splits)

lemma visit_InrD:
  assumes "visit reg path r c = Inr c'"
  obtains n d where "r \<notin> set path" "section_name c r = Some n"
    "registry_lookup reg r n = Inr d" "visit_deps reg (r # path) d (d_depends d) c = Inr c'"
  using assms by (auto simp: visit.simps split: if_splits option.splits sum.splits)

lemma visit_deps_ConsD:
  assumes "visit_deps reg path d (r # rs) c = Inr c'"
  obtains c1 c2 where "ensure_section d r c = Inr c1" "visit reg path r c1 = Inr c2"
    "visit_deps reg path d rs c2 = Inr c'"
  using assms by (auto simp: visit_deps.simps split: sum.splits)

lemma visit_le_aux:
  "\<forall>c'. visit reg path r c = Inr c' \<longrightarrow> cfg_le c c'"
  "\<forall>c'. visit_deps reg path d rs c = Inr c' \<longrightarrow> cfg_le c c'"
proof (induction reg path r c and reg path d rs c rule: visit_visit_deps.induct)
  case (1 reg path r cfg)
  show ?case
  proof (intro allI impI)
    fix c' assume "visit reg path r cfg = Inr c'"
    then show "cfg_le cfg c'"
      by (rule visit_InrD) (use 1 in blast)
  qed
next
  case (2 reg path d cfg)
  show ?case by (simp add: cfg_le_refl)
next
  case (3 reg path d r rs cfg)
  show ?case
  proof (intro allI impI)
    fix c' assume "visit_deps reg path d (r # rs) cfg = Inr c'"
    then obtain c1 c2 where e: "ensure_section d r cfg = Inr c1"
      and v: "visit reg path r c1 = Inr c2" and ds: "visit_deps reg path d rs c2 = Inr c'"
      by (rule visit_deps_ConsD)
    from e have "cfg_le cfg c1" by (rule ensure_section_le)
    moreover from "3.IH"(1) [OF e] v have "cfg_le c1 c2" by blast
    moreover from "3.IH"(2) [OF e v] ds have "cfg_le c2 c'" by blast
    ultimately show "cfg_le cfg c'" by (blast intro: cfg_le_trans)
  qed
qed

lemma visit_le: "visit reg path r c = Inr c' \<Longrightarrow> cfg_le c c'"
  using visit_le_aux(1) by blast

lemma visit_deps_le: "visit_deps reg path d rs c = Inr c' \<Longrightarrow> cfg_le c c'"
  using visit_le_aux(2) by blast

lemma closed_le: "closed reg c path r \<Longrightarrow> cfg_le c c' \<Longrightarrow> closed reg c' path r"
proof (induction rule: closed.induct)
  case (closedI r path n d)
  show ?case
  proof (rule closed.closedI)
    show "r \<notin> set path" by fact
    show "section_name c' r = Some n"
      using closedI.hyps(2) closedI.prems by (rule section_name_le [rotated])
    show "registry_lookup reg r n = Inr d" by fact
    show "\<forall>r'\<in>set (d_depends d). dep_ok d r' c' \<and> closed reg c' (r # path) r'"
      using closedI.IH closedI.prems by (blast intro: dep_ok_le)
  qed
qed

lemma closed_antimono:
  "closed reg c path r \<Longrightarrow> set path' \<subseteq> set path \<Longrightarrow> closed reg c path' r"
proof (induction arbitrary: path' rule: closed.induct)
  case (closedI r path n d)
  show ?case
  proof (rule closed.closedI)
    show "r \<notin> set path'" using closedI.hyps(1) closedI.prems by blast
    show "section_name c r = Some n" by fact
    show "registry_lookup reg r n = Inr d" by fact
    have "set (r # path') \<subseteq> set (r # path)" using closedI.prems by auto
    with closedI.IH
    show "\<forall>r'\<in>set (d_depends d). dep_ok d r' c \<and> closed reg c (r # path') r'"
      by blast
  qed
qed

lemma visit_deps_noop:
  "(\<forall>r'\<in>set rs. dep_ok d r' c \<and> visit reg p r' c = Inr c) \<Longrightarrow> visit_deps reg p d rs c = Inr c"
  by (induction rs) (simp_all add: visit_deps.simps dep_ok_ensure)

lemma closed_visit: "closed reg c path r \<Longrightarrow> visit reg path r c = Inr c"
proof (induction rule: closed.induct)
  case (closedI r path n d)
  from closedI.IH have "visit_deps reg (r # path) d (d_depends d) c = Inr c"
    by (intro visit_deps_noop) blast
  with closedI.hyps show ?case by (simp add: visit.simps)
qed

lemma visit_closed_aux:
  "wf_registry reg \<longrightarrow> (\<forall>c'. visit reg path r c = Inr c' \<longrightarrow> closed reg c' path r)"
  "wf_registry reg \<longrightarrow> wf_descriptor d \<longrightarrow>
     (\<forall>c'. visit_deps reg path d rs c = Inr c' \<longrightarrow>
        (\<forall>r'\<in>set rs. dep_ok d r' c' \<and> closed reg c' path r'))"
proof (induction reg path r c and reg path d rs c rule: visit_visit_deps.induct)
  case (1 reg path r cfg)
  show ?case
  proof (intro allI impI)
    fix c' assume wf: "wf_registry reg" and v: "visit reg path r cfg = Inr c'"
    from v obtain n d where np: "r \<notin> set path" and sn: "section_name cfg r = Some n"
      and lk: "registry_lookup reg r n = Inr d"
      and ds: "visit_deps reg (r # path) d (d_depends d) cfg = Inr c'"
      by (rule visit_InrD)
    from wf lk have wfd: "wf_descriptor d" by (rule lookup_wf)
    from v have "cfg_le cfg c'" by (rule visit_le)
    then have sn': "section_name c' r = Some n" using sn by (rule section_name_le)
    from "1.IH" [OF np sn lk] wf wfd ds
    have "\<forall>r'\<in>set (d_depends d). dep_ok d r' c' \<and> closed reg c' (r # path) r'" by blast
    with np sn' lk show "closed reg c' path r" by (rule closed.closedI)
  qed
next
  case (2 reg path d cfg)
  show ?case by simp
next
  case (3 reg path d r rs cfg)
  show ?case
  proof (intro allI impI)
    fix c' assume wf: "wf_registry reg" and wfd: "wf_descriptor d"
      and v: "visit_deps reg path d (r # rs) cfg = Inr c'"
    from v obtain c1 c2 where e: "ensure_section d r cfg = Inr c1"
      and v1: "visit reg path r c1 = Inr c2" and ds: "visit_deps reg path d rs c2 = Inr c'"
      by (rule visit_deps_ConsD)
    from v1 have le12: "cfg_le c1 c2" by (rule visit_le)
    from ds have le2: "cfg_le c2 c'" by (rule visit_deps_le)
    from wfd e have "dep_ok d r c1" by (rule ensure_dep_ok)
    then have a: "dep_ok d r c'" using le12 le2 by (blast intro: dep_ok_le)
    from "3.IH"(1) [OF e] wf v1 have "closed reg c2 path r" by blast
    then have b: "closed reg c' path r" using le2 by (rule closed_le)
    from "3.IH"(2) [OF e v1] wf wfd ds
    have "\<forall>r'\<in>set rs. dep_ok d r' c' \<and> closed reg c' path r'" by blast
    with a b show "\<forall>r'\<in>set (r # rs). dep_ok d r' c' \<and> closed reg c' path r'" by simp
  qed
qed

lemma visit_closed:
  "wf_registry reg \<Longrightarrow> visit reg path r c = Inr c' \<Longrightarrow> closed reg c' path r"
  using visit_closed_aux(1) by blast

lemma ensure_section_named:
  "ensure_section d r c = Inr c1 \<Longrightarrow> section_name c1 s \<noteq> None \<Longrightarrow>
     s = r \<or> section_name c s \<noteq> None"
  by (auto simp: ensure_section_def section_name_def update_conv' split: option.splits if_splits)

lemma visit_named_aux:
  "wf_registry reg \<longrightarrow> (\<forall>c'. visit reg path r c = Inr c' \<longrightarrow>
      (\<forall>s. section_name c' s \<noteq> None \<longrightarrow> section_name c s \<noteq> None \<or> closed reg c' [] s))"
  "wf_registry reg \<longrightarrow> (\<forall>c'. visit_deps reg path d rs c = Inr c' \<longrightarrow>
      (\<forall>s. section_name c' s \<noteq> None \<longrightarrow> section_name c s \<noteq> None \<or> closed reg c' [] s))"
proof (induction reg path r c and reg path d rs c rule: visit_visit_deps.induct)
  case (1 reg path r cfg)
  show ?case
  proof (intro allI impI)
    fix c' s assume wf: "wf_registry reg" and v: "visit reg path r cfg = Inr c'"
      and s: "section_name c' s \<noteq> None"
    from v obtain n d where np: "r \<notin> set path" and sn: "section_name cfg r = Some n"
      and lk: "registry_lookup reg r n = Inr d"
      and ds: "visit_deps reg (r # path) d (d_depends d) cfg = Inr c'"
      by (rule visit_InrD)
    from "1.IH" [OF np sn lk] wf ds s
    show "section_name cfg s \<noteq> None \<or> closed reg c' [] s" by blast
  qed
next
  case (2 reg path d cfg)
  show ?case by simp
next
  case (3 reg path d r rs cfg)
  show ?case
  proof (intro allI impI)
    fix c' s assume wf: "wf_registry reg"
      and v: "visit_deps reg path d (r # rs) cfg = Inr c'"
      and s: "section_name c' s \<noteq> None"
    from v obtain c1 c2 where e: "ensure_section d r cfg = Inr c1"
      and v1: "visit reg path r c1 = Inr c2" and ds: "visit_deps reg path d rs c2 = Inr c'"
      by (rule visit_deps_ConsD)
    from ds have le2: "cfg_le c2 c'" by (rule visit_deps_le)
    from wf v1 have "closed reg c2 path r" by (rule visit_closed)
    then have "closed reg c2 [] r" by (rule closed_antimono) simp
    then have cr: "closed reg c' [] r" using le2 by (rule closed_le)
    from "3.IH"(2) [OF e v1] wf ds s
    consider "section_name c2 s \<noteq> None" | "closed reg c' [] s" by blast
    then show "section_name cfg s \<noteq> None \<or> closed reg c' [] s"
    proof cases
      case 1
      with "3.IH"(1) [OF e] wf v1
      consider "section_name c1 s \<noteq> None" | "closed reg c2 [] s" by blast
      then show ?thesis
      proof cases
        case 1
        with ensure_section_named [OF e] cr show ?thesis by blast
      next
        case 2
        then show ?thesis using le2 by (blast intro: closed_le)
      qed
    next
      case 2
      then show ?thesis by simp
    qed
  qed
qed

lemma visit_named:
  "wf_registry reg \<Longrightarrow> visit reg path r c = Inr c' \<Longrightarrow> section_name c' s \<noteq> None \<Longrightarrow>
     section_name c s \<noteq> None \<or> closed reg c' [] s"
  using visit_named_aux(1) by blast

lemma visit_all_le: "visit_all reg rs c = Inr c' \<Longrightarrow> cfg_le c c'"
proof (induction rs arbitrary: c)
  case Nil
  then show ?case by (simp add: cfg_le_refl)
next
  case (Cons r rs)
  from Cons.prems obtain c1 where v: "visit reg [] r c = Inr c1"
    and va: "visit_all reg rs c1 = Inr c'"
    by (auto split: sum.splits)
  from visit_le [OF v] Cons.IH [OF va] show ?case by (rule cfg_le_trans)
qed

lemma visit_all_closed:
  assumes "wf_registry reg" and "visit_all reg rs c = Inr c'"
    and "\<forall>s. map_of reg s \<noteq> None \<and> section_name c s \<noteq> None \<longrightarrow> s \<in> set rs \<or> closed reg c [] s"
    and "map_of reg s \<noteq> None" and "section_name c' s \<noteq> None"
  shows "closed reg c' [] s"
  using assms(2,3,5)
proof (induction rs arbitrary: c)
  case Nil
  with assms(4) show ?case by simp
next
  case (Cons r rs)
  from Cons.prems(1) obtain c1 where v: "visit reg [] r c = Inr c1"
    and va: "visit_all reg rs c1 = Inr c'"
    by (auto split: sum.splits)
  have le: "cfg_le c c1" using v by (rule visit_le)
  have cr: "closed reg c1 [] r" using assms(1) v by (rule visit_closed)
  have "\<forall>t. map_of reg t \<noteq> None \<and> section_name c1 t \<noteq> None \<longrightarrow> t \<in> set rs \<or> closed reg c1 [] t"
  proof (intro allI impI)
    fix t assume t: "map_of reg t \<noteq> None \<and> section_name c1 t \<noteq> None"
    with visit_named [OF assms(1) v, of t]
    consider "section_name c t \<noteq> None" | "closed reg c1 [] t" by blast
    then show "t \<in> set rs \<or> closed reg c1 [] t"
    proof cases
      case 1
      with t Cons.prems(2) have "t = r \<or> t \<in> set rs \<or> closed reg c [] t" by auto
      with cr le show ?thesis by (blast intro: closed_le)
    next
      case 2
      then show ?thesis by simp
    qed
  qed
  from Cons.IH [OF va this Cons.prems(3)] show ?case .
qed

lemma closed_all_noop:
  "(\<forall>r\<in>set rs. closed reg c [] r) \<Longrightarrow> visit_all reg rs c = Inr c"
  by (induction rs) (simp_all add: closed_visit)

lemma merge_section_le: "merge_section reg r s = Inr s' \<Longrightarrow> sec_le s s'"
  by (auto simp: merge_section_def sec_le_refl sec_le_merge split: if_splits sum.splits)

lemma merge_section_named:
  "merge_section reg r s = Inr s' \<Longrightarrow> map_of reg r \<noteq> None \<Longrightarrow> selected_name s \<noteq> None"
  by (auto simp: merge_section_def section_descriptor_def split: if_splits sum.splits option.splits)

lemma merge_section_idem:
  assumes "wf_registry reg" and "merge_section reg r s = Inr s'"
  shows "merge_section reg r s' = Inr s'"
proof (cases "map_of reg r = None")
  case True
  with assms(2) show ?thesis by (simp add: merge_section_def)
next
  case False
  with assms(2) obtain n d where n: "selected_name s = Some n"
    and lk: "registry_lookup reg r n = Inr d" and s': "s' = merge_dict (schema_defaults d) s"
    by (auto simp: merge_section_def section_descriptor_def split: sum.splits option.splits)
  from assms(1) lk have "wf_descriptor d" by (rule lookup_wf)
  then have "wf_val (PDict (schema_defaults d))"
    by (simp add: wf_descriptor_def)
  then have "merge_dict (schema_defaults d) s' = s'"
    unfolding s' by (rule merge_dict_idem)
  moreover from n have "selected_name s' = Some n"
    unfolding s' by (rule selected_name_le [OF sec_le_merge])
  ultimately show ?thesis using False lk
    by (simp add: merge_section_def section_descriptor_def)
qed

lemma merge_defaults_map_of:
  "merge_defaults reg c = Inr c' \<Longrightarrow>
     (case map_of c r of
        None \<Rightarrow> map_of c' r = None
      | Some s \<Rightarrow> (\<exists>s'. map_of c' r = Some s' \<and> merge_section reg r s = Inr s'))"
proof (induction c arbitrary: c')
  case Nil
  then show ?case by simp
next
  case (Cons p c)
  obtain q s where p: "p = (q, s)" by (cases p)
  from Cons.prems p obtain s1 c1 where a: "merge_section reg q s = Inr s1"
    and b: "merge_defaults reg c = Inr c1" and c': "c' = (q, s1) # c1"
    by (auto split: sum.splits)
  from Cons.IH [OF b] a show ?case
    by (auto simp: p c' split: option.splits)
qed

lemma merge_defaults_keys: "merge_defaults reg c = Inr c' \<Longrightarrow> map fst c' = map fst c"
proof (induction c arbitrary: c')
  case Nil
  then show ?case by simp
next
  case (Cons p c)
  obtain q s where p: "p = (q, s)" by (cases p)
  from Cons.prems p obtain s1 c1 where "merge_defaults reg c = Inr c1" "c' = (q, s1) # c1"
    by (auto split: sum.splits)
  with Cons.IH show ?case by (simp add: p)
qed

lemma merge_defaults_le: "merge_defaults reg c = Inr c' \<Longrightarrow> cfg_le c c'"
  unfolding cfg_le_def
proof (intro allI impI)
  fix r s assume "merge_defaults reg c = Inr c'" and "map_of c r = Some s"
  with merge_defaults_map_of [of reg c c' r]
  show "\<exists>s'. map_of c' r = Some s' \<and> sec_le s s'"
    by (auto intro: merge_section_le)
qed

lemma merge_defaults_named:
  assumes "merge_defaults reg c = Inr c'" and "map_of reg r \<noteq> None"
    and "section_name c' r \<noteq> None"
  shows "section_name c r \<noteq> None"
proof (cases "map_of c r")
  case None
  with merge_defaults_map_of [OF assms(1), of r] assms(3) show ?thesis
    by (simp add: section_name_def)
next
  case (Some s)
  with merge_defaults_map_of [OF assms(1), of r]
  obtain s' where "merge_section reg r s = Inr s'" by auto
  from merge_section_named [OF this assms(2)] Some show ?thesis
    by (simp add: section_name_def)
qed

lemma merge_defaults_idem:
  "wf_registry reg \<Longrightarrow> merge_defaults reg c = Inr c' \<Longrightarrow> merge_defaults reg c' = Inr c'"
proof (induction c arbitrary: c')
  case Nil
  then show ?case by simp
next
  case (Cons p c)
  obtain q s where p: "p = (q, s)" by (cases p)
  from Cons.prems(2) p obtain s1 c1 where a: "merge_section reg q s = Inr s1"
    and b: "merge_defaults reg c = Inr c1" and c': "c' = (q, s1) # c1"
    by (auto split: sum.splits)
  from merge_section_idem [OF Cons.prems(1) a] Cons.IH [OF Cons.prems(1) b]
  show ?case by (simp add: c')
qed

lemma resolve_InrD:
  assumes "resolve reg raw = Inr r"
  obtains c1 where "resolve_dependencies reg raw = Inr c1" "merge_defaults reg c1 = Inr r"
    "validate reg r = None"
  using assms by (auto simp: resolve_def split: sum.splits option.splits)

text \<open>
  C1. Resolution is idempotent: whenever a raw configuration resolves
  successfully, resolving the resolved configuration again succeeds and returns
  it unchanged. The registry is one of well-formed descriptors, that is, the
  dicts of defaults it declares have each key once, as Python dicts do.
\<close>

theorem resolve_idempotent:
  assumes wf: "wf_registry reg" and res: "resolve reg raw = Inr r"
  shows "resolve reg r = Inr r"
proof -
  from res obtain c1 where dep: "resolve_dependencies reg raw = Inr c1"
    and mrg: "merge_defaults reg c1 = Inr r" and val: "validate reg r = None"
    by (rule resolve_InrD)
  from dep have va: "visit_all reg (start_roles reg raw) raw = Inr c1"
    by (simp add: resolve_dependencies_def)
  have start: "\<forall>s. map_of reg s \<noteq> None \<and> section_name raw s \<noteq> None
                 \<longrightarrow> s \<in> set (start_roles reg raw) \<or> closed reg raw [] s"
    by (auto simp: start_roles_def section_name_def split: option.splits
          dest: map_of_SomeD intro: rev_image_eqI)
  have "\<forall>s\<in>set (start_roles reg r). closed reg r [] s"
  proof
    fix s assume "s \<in> set (start_roles reg r)"
    then have comp: "map_of reg s \<noteq> None" and nm: "section_name r s \<noteq> None"
      by (auto simp: start_roles_def)
    from mrg comp nm have "section_name c1 s \<noteq> None" by (rule merge_defaults_named)
    with wf va start comp have "closed reg c1 [] s" by (rule visit_all_closed)
    then show "closed reg r [] s" using merge_defaults_le [OF mrg] by (rule closed_le)
  qed
  then have "resolve_dependencies reg r = Inr r"
    by (simp add: resolve_dependencies_def closed_all_noop)
  moreover from wf mrg have "merge_defaults reg r = Inr r" by (rule merge_defaults_idem)
  ultimately show ?thesis using val by (simp add: resolve_def)
qed

lemma example_registry_wf: "wf_registry example_registry"
  by (simp add: wf_registry_def wf_descriptor_def example_registry_def QAOA_CONFIGURATION_def
        example_COBYLA_def schema_defaults_def)

theorem resolve_idempotent_witness:
  "wf_registry example_registry
   \<and> resolve example_registry example_params = Inr example_resolved
   \<and> resolve example_registry example_resolved = Inr example_resolved"
  using resolve_idempotent [OF example_registry_wf example_resolve]
    example_registry_wf example_resolve
  by simp

subsection \<open>Schema constraints\<close>

lemma not_conforms_below_minimum: "pminimum ps = Some m \<Longrightarrow> i < m \<Longrightarrow> \<not> conforms ps (PInt i)"
  by (simp add: conforms_def)

lemma registry_lookup_map_of: "registry_lookup reg r n = Inr d \<Longrightarrow> map_of reg r \<noteq> None"
  by (auto simp: registry_lookup_def split: option.splits)

lemma map_of_split:
  "map_of c a = Some x \<Longrightarrow> \<exists>rest. c = takeWhile (\<lambda>(k, v). k \<noteq> a) c @ (a, x) # rest"
  by (induction c) (auto split: if_splits)

lemma validate_append:
  "validate reg (a @ b) = (case validate reg a of Some e \<Rightarrow> Some e | None \<Rightarrow> validate reg b)"
  by (induction reg a rule: validate.induct) (auto split: option.splits)

lemma validate_properties_append:
  "validate_properties s d (a @ b)
     = (case validate_properties s d a of Some e \<Rightarrow> Some e | None \<Rightarrow> validate_properties s d b)"
  by (induction s d a rule: validate_properties.induct) (auto split: option.splits)

lemma resolved_section:
  assumes dep: "resolve_dependencies reg raw = Inr c1" and mrg: "merge_defaults reg c1 = Inr c2"
    and sec: "map_of raw r = Some sec"
  obtains sec' where "map_of c2 r = Some sec'" "sec_le sec sec'"
proof -
  from dep have "cfg_le raw c1" by (simp add: resolve_dependencies_def visit_all_le)
  from this merge_defaults_le [OF mrg] have "cfg_le raw c2" by (rule cfg_le_trans)
  with sec that show thesis by (auto simp: cfg_le_def)
qed

lemma validate_properties_p_zero:
  assumes ps: "map_of (d_properties d) ''p'' = Some ps" and mn: "pminimum ps = Some 1"
    and p0: "map_of x ''p'' = Some (PInt 0)"
  shows "validate_properties s d x
           = Some (case validate_properties s d (takeWhile (\<lambda>(k, v). k \<noteq> ''p'') x) of
                     Some e \<Rightarrow> e
                   | None \<Rightarrow> ConfigurationError s ''p'')"
proof -
  from map_of_split [OF p0] obtain rest where
    x: "x = takeWhile (\<lambda>(k, v). k \<noteq> ''p'') x @ (''p'', PInt 0) # rest" by blast
  from mn have "\<not> conforms ps (PInt 0)" by (simp add: not_conforms_below_minimum)
  with ps have "validate_properties s d ((''p'', PInt 0) # rest) = Some (ConfigurationError s ''p'')"
    by (simp add: NAME_def)
  then have "validate_properties s d (takeWhile (\<lambda>(k, v). k \<noteq> ''p'') x @ (''p'', PInt 0) # rest)
           = Some (case validate_properties s d (takeWhile (\<lambda>(k, v). k \<noteq> ''p'') x) of
                     Some e \<Rightarrow> e
                   | None \<Rightarrow> ConfigurationError s ''p'')"
    by (simp add: validate_properties_append split: option.splits)
  with x show ?thesis by simp
qed

lemma validate_p_zero:
  assumes lk: "registry_lookup reg ALGORITHM n = Inr d"
    and ps: "map_of (d_properties d) ''p'' = Some ps" and mn: "pminimum ps = Some 1"
    and x: "map_of c2 ALGORITHM = Some x"
    and nm: "selected_name x = Some n" and p0: "map_of x ''p'' = Some (PInt 0)"
  shows "validate reg c2
           = Some (case validate reg (takeWhile (\<lambda>(s, y). s \<noteq> ALGORITHM) c2) of
                     Some e \<Rightarrow> e
                   | None \<Rightarrow>
                       (case validate_properties ALGORITHM d
                               (takeWhile (\<lambda>(k, v). k \<noteq> ''p'') x) of
                          Some e \<Rightarrow> e
                        | None \<Rightarrow> ConfigurationError ALGORITHM ''p''))"
proof -
  from map_of_split [OF x] obtain rest where
    c: "c2 = takeWhile (\<lambda>(s, y). s \<noteq> ALGORITHM) c2 @ (ALGORITHM, x) # rest" by blast
  from lk nm registry_lookup_map_of [OF lk]
  have "validate_section reg ALGORITHM x = validate_properties ALGORITHM d x"
    by (auto simp: validate_section_def section_descriptor_def)
  with validate_properties_p_zero [OF ps mn p0, of ALGORITHM]
  have "validate reg ((ALGORITHM, x) # rest)
          = Some (case validate_properties ALGORITHM d (takeWhile (\<lambda>(k, v). k \<noteq> ''p'') x) of
                    Some e \<Rightarrow> e
                  | None \<Rightarrow> ConfigurationError ALGORITHM ''p'')"
    by simp
  then have "validate reg (takeWhile (\<lambda>(s, y). s \<noteq> ALGORITHM) c2 @ (ALGORITHM, x) # rest)
           = Some (case validate reg (takeWhile (\<lambda>(s, y). s \<noteq> ALGORITHM) c2) of
                     Some e \<Rightarrow> e
                   | None \<Rightarrow>
                       (case validate_properties ALGORITHM d
                               (takeWhile (\<lambda>(k, v). k \<noteq> ''p'') x) of
                          Some e \<Rightarrow> e
                        | None \<Rightarrow> ConfigurationError ALGORITHM ''p''))"
    by (simp add: validate_append split: option.splits)
  with c show ?thesis by simp
qed

lemma resolve_p_zero:
  assumes lk: "registry_lookup reg ALGORITHM n = Inr d"
    and ps: "map_of (d_properties d) ''p'' = Some ps" and mn: "pminimum ps = Some 1"
    and sec: "map_of raw ALGORITHM = Some sec"
    and nm: "selected_name sec = Some n" and p0: "map_of sec ''p'' = Some (PInt 0)"
  shows "resolve reg raw
           = Inl (case resolve_dependencies reg raw of
                    Inl e \<Rightarrow> e
                  | Inr c1 \<Rightarrow>
                      (case merge_defaults reg c1 of
                         Inl e \<Rightarrow> e
                       | Inr c2 \<Rightarrow>
                           (case validate reg (takeWhile (\<lambda>(s, y). s \<noteq> ALGORITHM) c2) of
                              Some e \<Rightarrow> e
                            | None \<Rightarrow>
                                (case validate_properties ALGORITHM d
                                        (takeWhile (\<lambda>(k, v). k \<noteq> ''p'')
                                           (case map_of c2 ALGORITHM of
                                              None \<Rightarrow> []
                                            | Some x \<Rightarrow> x)) of
                                   Some e \<Rightarrow> e
                                 | None \<Rightarrow> ConfigurationError ALGORITHM ''p''))))"
proof (cases "resolve_dependencies reg raw")
  case (Inl e)
  then show ?thesis by (simp add: resolve_def)
next
  case dep: (Inr c1)
  show ?thesis
  proof (cases "merge_defaults reg c1")
    case (Inl e)
    with dep show ?thesis by (simp add: resolve_def)
  next
    case mrg: (Inr c2)
    from dep mrg sec obtain x where x: "map_of c2 ALGORITHM = Some x" and le: "sec_le sec x"
      by (rule resolved_section)
    from le nm have nm': "selected_name x = Some n" by (rule selected_name_le)
    from le p0 have p0': "map_of x ''p'' = Some (PInt 0)" by (simp add: sec_le_def)
    from validate_p_zero [OF lk ps mn x nm' p0'] dep mrg x show ?thesis
      by (simp add: resolve_def split: option.splits)
  qed
qed

text \<open>
  C4. Rejection of a value below the declared minimum. What holds: when the
  algorithm section selects a registered algorithm whose schema declares
  minimum 1 for "p" (as that of QAOA does) and sets "p" to 0, resolution never
  succeeds, and \<^verbatim>\<open>run_algorithm\<close> raises the error of resolution without
  having made any call that constructs a component. The error is that of the
  first failure met: that of the resolution of names and dependencies, else
  that of the merge of defaults, else that of a section validated before the
  algorithm section, else that of a property of the algorithm section
  validated before "p", and else the \<^verbatim>\<open>ConfigurationError\<close> naming
  section "algorithm" and property "p". Nothing that comes after "p" changes it.
\<close>

theorem p_zero_rejected:
  assumes lk: "registry_lookup reg ALGORITHM n = Inr d"
    and ps: "map_of (d_properties d) ''p'' = Some ps" and mn: "pminimum ps = Some 1"
    and sec: "map_of raw ALGORITHM = Some sec"
    and nm: "selected_name sec = Some n" and p0: "map_of sec ''p'' = Some (PInt 0)"
    and env: "InputParser env = resolved_parser reg"
  shows "\<exists>e. resolve reg raw = Inl e
           \<and> run_algorithm env raw algo_input json_output backend = ([], Inl e)
           \<and> e = (case resolve_dependencies reg raw of
                     Inl e1 \<Rightarrow> e1
                   | Inr c1 \<Rightarrow>
                       (case merge_defaults reg c1 of
                          Inl e2 \<Rightarrow> e2
                        | Inr c2 \<Rightarrow>
                            (case validate reg (takeWhile (\<lambda>(s, y). s \<noteq> ALGORITHM) c2) of
                               Some e3 \<Rightarrow> e3
                             | None \<Rightarrow>
                                 (case validate_properties ALGORITHM d
                                         (takeWhile (\<lambda>(k, v). k \<noteq> ''p'')
                                            (case map_of c2 ALGORITHM of
                                               None \<Rightarrow> []
                                             | Some x \<Rightarrow> x)) of
                                    Some e4 \<Rightarrow> e4
                                  | None \<Rightarrow> ConfigurationError ALGORITHM ''p''))))"
proof -
  note r = resolve_p_zero [OF lk ps mn sec nm p0]
  from env r show ?thesis
    by (simp add: run_algorithm_def resolved_parser_def)
qed

lemma example_p_zero_steps:
  "resolve_dependencies example_registry example_p_zero =
     Inr [(''algorithm'', [(''name'', PStr ''QAOA.Variational''), (''p'', PInt 0)]),
          (''optimizer'', [(''name'', PStr ''COBYLA'')])]"
  "merge_defaults example_registry
     [(''algorithm'', [(''name'', PStr ''QAOA.Variational''), (''p'', PInt 0)]),
      (''optimizer'', [(''name'', PStr ''COBYLA'')])] =
     Inr [(''algorithm'',
            [(''name'', PStr ''QAOA.Variational''), (''p'', PInt 0),
             (''operator_mode'', PStr ''matrix''), (''initial_point'', PNone),
             (''batch_mode'', PBool False)]),
          (''optimizer'',
            [(''name'', PStr ''COBYLA''), (''maxiter'', PInt 1000), (''disp'', PBool False),
             (''tol'', PNone)])]"
  by code_simp+

theorem p_zero_rejected_witness:
  "resolve example_registry example_p_zero = Inl (ConfigurationError ''algorithm'' ''p'')
   \<and> run_algorithm example_env example_p_zero None False PNone
       = ([], Inl (ConfigurationError ''algorithm'' ''p''))"
proof -
  let ?ps = "\<lparr> ptype = [TInteger], pdefault = Some (PInt 1), pminimum = Some 1,
               penum = None, pitems = None \<rparr>"
  let ?sec = "[(''name'', PStr ''QAOA.Variational''), (''p'', PInt 0)]"
  have lk: "registry_lookup example_registry ALGORITHM ''QAOA.Variational'' = Inr QAOA_CONFIGURATION"
    by (simp add: registry_lookup_def example_registry_def ALGORITHM_def QAOA_CONFIGURATION_def)
  have ps: "map_of (d_properties QAOA_CONFIGURATION) ''p'' = Some ?ps"
    by (simp add: QAOA_CONFIGURATION_def)
  have mn: "pminimum ?ps = Some 1" by simp
  have sec: "map_of example_p_zero ALGORITHM = Some ?sec"
    by (simp add: example_p_zero_def ALGORITHM_def)
  have nm: "selected_name ?sec = Some ''QAOA.Variational''"
    by (simp add: selected_name_def NAME_def)
  have p0: "map_of ?sec ''p'' = Some (PInt 0)" by simp
  have env: "InputParser example_env = resolved_parser example_registry"
    by (simp add: example_env_def)
  from p_zero_rejected [OF lk ps mn sec nm p0 env, of None False PNone] obtain e where
    r: "resolve example_registry example_p_zero = Inl e"
      "run_algorithm example_env example_p_zero None False PNone = ([], Inl e)"
    and e: "e = (case resolve_dependencies example_registry example_p_zero of
                   Inl e1 \<Rightarrow> e1
                 | Inr c1 \<Rightarrow>
                     (case merge_defaults example_registry c1 of
                        Inl e2 \<Rightarrow> e2
                      | Inr c2 \<Rightarrow>
                          (case validate example_registry
                                  (takeWhile (\<lambda>(s, y). s \<noteq> ALGORITHM) c2) of
                             Some e3 \<Rightarrow> e3
                           | None \<Rightarrow>
                               (case validate_properties ALGORITHM QAOA_CONFIGURATION
                                       (takeWhile (\<lambda>(k, v). k \<noteq> ''p'')
                                          (case map_of c2 ALGORITHM of
                                             None \<Rightarrow> []
                                           | Some x \<Rightarrow> x)) of
                                  Some e4 \<Rightarrow> e4
                                | None \<Rightarrow> ConfigurationError ALGORITHM ''p''))))"
    by blast
  have "e = ConfigurationError ''algorithm'' ''p''"
    unfolding e example_p_zero_steps sum.case by code_simp
  with r show ?thesis by simp
qed

text \<open>
  The claim as stated fails when something else in the configuration fails
  first: an optimizer section naming a component that is not registered fails
  on the look-up, before any validation; a value of the algorithm section that
  is validated before "p" and is outside its enumeration is the violation
  reported. A violation met after "p" does not change the error.
\<close>

theorem p_zero_rejected_counterexample:
  "map_of example_p_zero_unregistered ALGORITHM
     = Some [(''name'', PStr ''QAOA.Variational''), (''p'', PInt 0)]
   \<and> resolve example_registry example_p_zero_unregistered
       = Inl (ComponentNotFoundError ''optimizer'' ''NoSuchOptimizer'')
   \<and> map_of example_p_zero_mode ALGORITHM
       = Some [(''name'', PStr ''QAOA.Variational''), (''operator_mode'', PStr ''bogus''),
               (''p'', PInt 0)]
   \<and> resolve example_registry example_p_zero_mode
       = Inl (ConfigurationError ''algorithm'' ''operator_mode'')
   \<and> resolve example_registry example_p_zero_later
       = Inl (ConfigurationError ''algorithm'' ''p'')"
  by code_simp

end
